theory Spec2Isabelle
  imports Complex_Main
begin

section \<open>JavaScript numbers\<close>

text \<open>
  A Number is a double: here a rational (the value of a finite double), one of the two
  infinities, or NaN.  The arithmetic operators round their exact result to the nearest
  double, ties to the even significand, as IEEE 754 prescribes.  The sign of zero is not
  modelled.
\<close>

datatype jsnum = NaN | Fin rat | PosInf | NegInf

subsection \<open>Rounding to a double\<close>

text \<open>The number of bits of a positive integer.\<close>

function ilen :: "int \<Rightarrow> int" where
  "ilen a = (if a \<le> 0 then 0 else 1 + ilen (a div 2))"
  by pat_completeness auto
termination
  by (relation "measure nat") auto

declare ilen.simps [simp del]

text \<open>The binary exponent of \<open>q > 0\<close>: the \<open>e\<close> with \<open>2^e \<le> q < 2^(e+1)\<close>.\<close>

definition ilog2 :: "rat \<Rightarrow> int" where
  "ilog2 q =
     (if 1 \<le> q then ilen \<lfloor>q\<rfloor> - 1
      else (let k = ilen \<lfloor>1 / q\<rfloor> - 1 in if q * 2 powi k = 1 then - k else - k - 1))"

definition roundHalfEven :: "rat \<Rightarrow> int" where
  "roundHalfEven x =
     (let f = \<lfloor>x\<rfloor>; r = x - of_int f
      in if r < 1 / 2 then f else if 1 / 2 < r then f + 1 else if even f then f else f + 1)"

text \<open>
  The exponent of the unit in the last place of the doubles around \<open>q > 0\<close> (52 bits below the
  leading bit, and no smaller than that of the subnormal numbers), and the multiple of that
  unit nearest to \<open>q\<close>.  A result of \<open>2^1024\<close> or more, one with a binary exponent from
  1024 on, overflows to infinity.
\<close>

definition ulpExponent :: "rat \<Rightarrow> int" where
  "ulpExponent q = max (ilog2 q) (- 1022) - 52"

definition nearest :: "rat \<Rightarrow> rat" where
  "nearest q = of_int (roundHalfEven (q / 2 powi ulpExponent q)) * 2 powi ulpExponent q"

definition round_pos :: "rat \<Rightarrow> jsnum" where
  "round_pos q = (if 1024 \<le> ilog2 (nearest q) then PosInf else Fin (nearest q))"

fun js_neg :: "jsnum \<Rightarrow> jsnum" where
  "js_neg NaN = NaN"
| "js_neg (Fin a) = Fin (- a)"
| "js_neg PosInf = NegInf"
| "js_neg NegInf = PosInf"

definition double :: "rat \<Rightarrow> jsnum" where
  "double q = (if q = 0 then Fin 0 else if 0 < q then round_pos q else js_neg (round_pos (- q)))"

subsection \<open>Comparison and arithmetic\<close>

text \<open>The abstract relational comparison \<open>x < y\<close>: \<open>None\<close> is the result "undefined".\<close>

fun IsLessThan :: "jsnum \<Rightarrow> jsnum \<Rightarrow> bool option" where
  "IsLessThan NaN y = None"
| "IsLessThan x NaN = None"
| "IsLessThan (Fin a) (Fin b) = Some (a < b)"
| "IsLessThan PosInf y = Some False"
| "IsLessThan x PosInf = Some True"
| "IsLessThan x NegInf = Some False"
| "IsLessThan NegInf y = Some True"

definition js_lt :: "jsnum \<Rightarrow> jsnum \<Rightarrow> bool" where
  "js_lt x y = (case IsLessThan x y of None \<Rightarrow> False | Some r \<Rightarrow> r)"

definition js_le :: "jsnum \<Rightarrow> jsnum \<Rightarrow> bool" where
  "js_le x y = (case IsLessThan y x of None \<Rightarrow> False | Some r \<Rightarrow> \<not> r)"

definition js_ge :: "jsnum \<Rightarrow> jsnum \<Rightarrow> bool" where
  "js_ge x y = (case IsLessThan x y of None \<Rightarrow> False | Some r \<Rightarrow> \<not> r)"

definition isNaN :: "jsnum \<Rightarrow> bool" where
  "isNaN x = (case x of NaN \<Rightarrow> True | _ \<Rightarrow> False)"

definition trunc :: "rat \<Rightarrow> int" where
  "trunc q = (if q < 0 then \<lceil>q\<rceil> else \<lfloor>q\<rfloor>)"

fun js_add :: "jsnum \<Rightarrow> jsnum \<Rightarrow> jsnum" where
  "js_add NaN y = NaN"
| "js_add x NaN = NaN"
| "js_add (Fin a) (Fin b) = double (a + b)"
| "js_add PosInf NegInf = NaN"
| "js_add NegInf PosInf = NaN"
| "js_add PosInf y = PosInf"
| "js_add NegInf y = NegInf"
| "js_add x PosInf = PosInf"
| "js_add x NegInf = NegInf"

definition js_sub :: "jsnum \<Rightarrow> jsnum \<Rightarrow> jsnum" where
  "js_sub x y = js_add x (js_neg y)"

definition signed_inf :: "bool \<Rightarrow> jsnum" where
  "signed_inf negative = (if negative then NegInf else PosInf)"

fun js_mul :: "jsnum \<Rightarrow> jsnum \<Rightarrow> jsnum" where
  "js_mul NaN y = NaN"
| "js_mul x NaN = NaN"
| "js_mul (Fin a) (Fin b) = double (a * b)"
| "js_mul (Fin a) y = (if a = 0 then NaN else signed_inf ((a < 0) \<noteq> (y = NegInf)))"
| "js_mul x (Fin b) = (if b = 0 then NaN else signed_inf ((b < 0) \<noteq> (x = NegInf)))"
| "js_mul x y = signed_inf ((x = NegInf) \<noteq> (y = NegInf))"

fun js_div :: "jsnum \<Rightarrow> jsnum \<Rightarrow> jsnum" where
  "js_div NaN y = NaN"
| "js_div x NaN = NaN"
| "js_div (Fin a) (Fin b) =
     (if b = 0 then (if a = 0 then NaN else signed_inf (a < 0)) else double (a / b))"
| "js_div (Fin a) y = Fin 0"
| "js_div x (Fin b) = signed_inf ((b < 0) \<noteq> (x = NegInf))"
| "js_div x y = NaN"

text \<open>The remainder operator \<open>%\<close>: the result has the sign of the dividend and is exact.\<close>

fun js_rem :: "jsnum \<Rightarrow> jsnum \<Rightarrow> jsnum" where
  "js_rem NaN d = NaN"
| "js_rem n NaN = NaN"
| "js_rem PosInf d = NaN"
| "js_rem NegInf d = NaN"
| "js_rem (Fin a) (Fin b) = (if b = 0 then NaN else Fin (a - b * of_int (trunc (a / b))))"
| "js_rem (Fin a) d = Fin a"

fun Math_min :: "jsnum \<Rightarrow> jsnum \<Rightarrow> jsnum" where
  "Math_min NaN y = NaN"
| "Math_min x NaN = NaN"
| "Math_min x y = (if js_lt y x then y else x)"

section \<open>Dates\<close>

text \<open>
  A Date holds a time value: milliseconds since the epoch in UTC, at most 8.64e15 on either
  side of it, or NaN for an Invalid Date (\<open>None\<close>).  \<open>TimeClip\<close> makes a time value outside
  that range NaN.  The functions below follow the abstract operations of the ECMAScript
  specification.
\<close>

type_synonym Date = "int option"

definition TimeClip :: "int \<Rightarrow> Date" where
  "TimeClip t = (if \<bar>t\<bar> \<le> 8640000000000000 then Some t else None)"

text \<open>
  What the program takes from the host it runs on.  \<open>LocalTZA t isUTC\<close> is the offset of
  local time from UTC in milliseconds, at the UTC time value \<open>t\<close> when \<open>isUTC\<close> is true and
  at the local time value \<open>t\<close> otherwise; it varies with \<open>t\<close> where the zone changes its
  offset.  \<open>legacyParse\<close> is what \<open>new Date(s)\<close> yields for a string that is not in the
  date-time format of the language, which the language leaves to the implementation.
\<close>

record host =
  LocalTZA :: "int \<Rightarrow> bool \<Rightarrow> int"
  legacyParse :: "string \<Rightarrow> Date"

definition msPerDay :: int where
  "msPerDay = 86400000"

definition Day :: "int \<Rightarrow> int" where
  "Day t = t div msPerDay"

definition TimeWithinDay :: "int \<Rightarrow> int" where
  "TimeWithinDay t = t mod msPerDay"

definition DaysInYear :: "int \<Rightarrow> int" where
  "DaysInYear y =
     (if y mod 4 \<noteq> 0 then 365 else if y mod 100 \<noteq> 0 then 366
      else if y mod 400 \<noteq> 0 then 365 else 366)"

definition DayFromYear :: "int \<Rightarrow> int" where
  "DayFromYear y =
     365 * (y - 1970) + (y - 1969) div 4 - (y - 1901) div 100 + (y - 1601) div 400"

text \<open>
  The year of a day number: the largest \<open>y\<close> with \<open>DayFromYear y \<le> d\<close>, computed from an
  estimate over the mean year length (146097 days in 400 years) that is off by at most one.
\<close>

definition YearFromDay :: "int \<Rightarrow> int" where
  "YearFromDay d =
     (let y = 1970 + (400 * d) div 146097
      in if d < DayFromYear y then y - 1
         else if DayFromYear (y + 1) \<le> d then y + 1 else y)"

definition YearFromTime :: "int \<Rightarrow> int" where
  "YearFromTime t = YearFromDay (Day t)"

definition InLeapYear :: "int \<Rightarrow> int" where
  "InLeapYear t = (if DaysInYear (YearFromTime t) = 366 then 1 else 0)"

definition DayWithinYear :: "int \<Rightarrow> int" where
  "DayWithinYear t = Day t - DayFromYear (YearFromTime t)"

text \<open>The day within the year on which month \<open>m\<close> (0 to 11) starts; \<open>l\<close> is 1 in a leap year.\<close>

definition monthStart :: "int \<Rightarrow> int \<Rightarrow> int" where
  "monthStart l m =
     (if m = 0 then 0 else if m = 1 then 31 else if m = 2 then 59 + l
      else if m = 3 then 90 + l else if m = 4 then 120 + l else if m = 5 then 151 + l
      else if m = 6 then 181 + l else if m = 7 then 212 + l else if m = 8 then 243 + l
      else if m = 9 then 273 + l else if m = 10 then 304 + l else 334 + l)"

definition MonthFromTime :: "int \<Rightarrow> int" where
  "MonthFromTime t =
     (let d = DayWithinYear t; l = InLeapYear t
      in if d < 31 then 0 else if d < 59 + l then 1 else if d < 90 + l then 2
         else if d < 120 + l then 3 else if d < 151 + l then 4 else if d < 181 + l then 5
         else if d < 212 + l then 6 else if d < 243 + l then 7 else if d < 273 + l then 8
         else if d < 304 + l then 9 else if d < 334 + l then 10 else 11)"

definition DateFromTime :: "int \<Rightarrow> int" where
  "DateFromTime t = DayWithinYear t - monthStart (InLeapYear t) (MonthFromTime t) + 1"

text \<open>Day of the week, 0 for Sunday; the epoch was a Thursday.\<close>

definition WeekDay :: "int \<Rightarrow> int" where
  "WeekDay t = (Day t + 4) mod 7"

definition HourFromTime :: "int \<Rightarrow> int" where
  "HourFromTime t = (t div 3600000) mod 24"

definition MinFromTime :: "int \<Rightarrow> int" where
  "MinFromTime t = (t div 60000) mod 60"

definition SecFromTime :: "int \<Rightarrow> int" where
  "SecFromTime t = (t div 1000) mod 60"

definition msFromTime :: "int \<Rightarrow> int" where
  "msFromTime t = t mod 1000"

definition LocalTime :: "host \<Rightarrow> int \<Rightarrow> int" where
  "LocalTime z t = t + LocalTZA z t True"

definition UTC :: "host \<Rightarrow> int \<Rightarrow> int" where
  "UTC z t = t - LocalTZA z t False"

definition MakeTime :: "int \<Rightarrow> int \<Rightarrow> int \<Rightarrow> int \<Rightarrow> int" where
  "MakeTime h m s ms = h * 3600000 + m * 60000 + s * 1000 + ms"

definition MakeDay :: "int \<Rightarrow> int \<Rightarrow> int \<Rightarrow> int" where
  "MakeDay year month date =
     (let ym = year + month div 12; mn = month mod 12
      in DayFromYear ym + monthStart (if DaysInYear ym = 366 then 1 else 0) mn + date - 1)"

definition MakeDate :: "int \<Rightarrow> int \<Rightarrow> int" where
  "MakeDate day time = day * msPerDay + time"

text \<open>The value a Date has in a comparison or in arithmetic.\<close>

definition valueOf :: "Date \<Rightarrow> jsnum" where
  "valueOf d = (case d of None \<Rightarrow> NaN | Some t \<Rightarrow> Fin (of_int t))"

definition getDay :: "host \<Rightarrow> Date \<Rightarrow> jsnum" where
  "getDay z d = (case d of None \<Rightarrow> NaN | Some t \<Rightarrow> Fin (of_int (WeekDay (LocalTime z t))))"

definition getDate :: "host \<Rightarrow> Date \<Rightarrow> jsnum" where
  "getDate z d =
     (case d of None \<Rightarrow> NaN | Some t \<Rightarrow> Fin (of_int (DateFromTime (LocalTime z t))))"

definition setDate :: "host \<Rightarrow> Date \<Rightarrow> jsnum \<Rightarrow> Date" where
  "setDate z d dt =
     (case d of
        None \<Rightarrow> None
      | Some t \<Rightarrow>
          (case dt of
             Fin q \<Rightarrow>
               (let t' = LocalTime z t;
                    newDate = MakeDate (MakeDay (YearFromTime t') (MonthFromTime t') (trunc q))
                                (TimeWithinDay t')
                in TimeClip (UTC z newDate))
           | _ \<Rightarrow> None))"

definition setHours :: "host \<Rightarrow> Date \<Rightarrow> int \<Rightarrow> int \<Rightarrow> int \<Rightarrow> int \<Rightarrow> Date" where
  "setHours z d h m s ms =
     (case d of
        None \<Rightarrow> None
      | Some t \<Rightarrow>
          (let t' = LocalTime z t;
               date = MakeDate (Day t') (MakeTime h m s ms)
           in TimeClip (UTC z date)))"

subsection \<open>Printing: toISOString\<close>

datatype error = TypeError | RangeError

definition digit :: "int \<Rightarrow> char" where
  "digit n = ''0123456789abcdefghijklmnopqrstuvwxyz'' ! nat (n mod 36)"

text \<open>The last \<open>w\<close> decimal digits of \<open>n\<close>, padded with zeros on the left.\<close>

fun pad :: "nat \<Rightarrow> int \<Rightarrow> string" where
  "pad 0 n = []"
| "pad (Suc w) n = pad w (n div 10) @ [digit (n mod 10)]"

definition isoYear :: "int \<Rightarrow> string" where
  "isoYear y =
     (if 0 \<le> y \<and> y \<le> 9999 then pad 4 y
      else (if y < 0 then ''-'' else ''+'') @ pad 6 \<bar>y\<bar>)"

definition isoString :: "int \<Rightarrow> string" where
  "isoString t =
     isoYear (YearFromTime t) @ ''-'' @ pad 2 (MonthFromTime t + 1) @ ''-'' @
     pad 2 (DateFromTime t) @ ''T'' @ pad 2 (HourFromTime t) @ '':'' @
     pad 2 (MinFromTime t) @ '':'' @ pad 2 (SecFromTime t) @ ''.'' @
     pad 3 (msFromTime t) @ ''Z''"

definition toISOString :: "Date \<Rightarrow> error + string" where
  "toISOString d = (case d of None \<Rightarrow> Inl RangeError | Some t \<Rightarrow> Inr (isoString t))"

text \<open>\<open>s.slice(a, b)\<close> for indices \<open>0 \<le> a \<le> b\<close>.\<close>

definition slice :: "nat \<Rightarrow> nat \<Rightarrow> string \<Rightarrow> string" where
  "slice a b s = take (b - a) (drop a s)"

subsection \<open>Parsing: new Date(string)\<close>

definition isDigit :: "char \<Rightarrow> bool" where
  "isDigit c = (c \<in> set ''0123456789'')"

definition digitVal :: "char \<Rightarrow> int" where
  "digitVal c = of_char c - 48"

definition decimal :: "string \<Rightarrow> int" where
  "decimal s = foldl (\<lambda>n c. 10 * n + digitVal c) 0 s"

text \<open>Exactly \<open>n\<close> decimal digits at the front of \<open>s\<close>: their value and the rest.\<close>

definition fixedNumber :: "nat \<Rightarrow> string \<Rightarrow> (int \<times> string) option" where
  "fixedNumber n s =
     (if n \<le> length s \<and> list_all isDigit (take n s)
      then Some (decimal (take n s), drop n s) else None)"

definition parseYear :: "string \<Rightarrow> (int \<times> string) option" where
  "parseYear s =
     (case s of
        [] \<Rightarrow> None
      | c # r \<Rightarrow>
          if c = CHR ''+'' then fixedNumber 6 r
          else if c = CHR ''-'' then
            (case fixedNumber 6 r of
               None \<Rightarrow> None
             | Some (y, r') \<Rightarrow> if y = 0 then None else Some (- y, r'))
          else fixedNumber 4 s)"

text \<open>An optional field \<open>-NN\<close> with a value between \<open>lo\<close> and \<open>hi\<close>.\<close>

definition parseField :: "int \<Rightarrow> int \<Rightarrow> string \<Rightarrow> (int option \<times> string) option" where
  "parseField lo hi s =
     (case s of
        c # r \<Rightarrow>
          if c = CHR ''-'' then
            (case fixedNumber 2 r of
               None \<Rightarrow> None
             | Some (v, r') \<Rightarrow> if lo \<le> v \<and> v \<le> hi then Some (Some v, r') else None)
          else Some (None, s)
      | [] \<Rightarrow> Some (None, s))"

text \<open>The time part \<open>THH:mm:ss\<close>, to the end of the string.\<close>

definition parseTime :: "string \<Rightarrow> int option" where
  "parseTime s =
     (case s of
        [t, h1, h2, c1, m1, m2, c2, s1, s2] \<Rightarrow>
          if t = CHR ''T'' \<and> c1 = CHR '':'' \<and> c2 = CHR '':'' \<and>
             list_all isDigit [h1, h2, m1, m2, s1, s2]
          then (let h = decimal [h1, h2]; m = decimal [m1, m2]; sec = decimal [s1, s2]
                in if h \<le> 24 \<and> m \<le> 59 \<and> sec \<le> 59 \<and> (h < 24 \<or> m = 0 \<and> sec = 0)
                   then Some (MakeTime h m sec 0) else None)
          else None
      | _ \<Rightarrow> None)"

text \<open>
  The date-time format of the language, for a string with a time and no offset: a date
  \<open>YYYY\<close>, \<open>YYYY-MM\<close> or \<open>YYYY-MM-DD\<close> (the year also as a sign and six digits) followed by
  the time \<open>THH:mm:ss\<close>.  The result is the local time value the string denotes.  A day of
  the month up to 31 is accepted for every month and carried over by \<open>MakeDay\<close>, as the V8
  engine does.
\<close>

definition parseDateTime :: "string \<Rightarrow> int option" where
  "parseDateTime s =
     (case parseYear s of
        None \<Rightarrow> None
      | Some (y, r1) \<Rightarrow>
          (case parseField 1 12 r1 of
             None \<Rightarrow> None
           | Some (mo, r2) \<Rightarrow>
               (case (if mo = None then Some (None, r2) else parseField 1 31 r2) of
                  None \<Rightarrow> None
                | Some (dy, r3) \<Rightarrow>
                    (case parseTime r3 of
                       None \<Rightarrow> None
                     | Some time \<Rightarrow>
                         (let month = (case mo of None \<Rightarrow> 1 | Some m \<Rightarrow> m);
                              date = (case dy of None \<Rightarrow> 1 | Some d \<Rightarrow> d)
                          in Some (MakeDate (MakeDay y (month - 1) date) time))))))"

text \<open>
  \<open>new Date(s)\<close>: a string in the format above is read as local time; any other string is
  left to the parser of the host.
\<close>

definition newDateFromString :: "host \<Rightarrow> string \<Rightarrow> Date" where
  "newDateFromString z s =
     (case parseDateTime s of
        Some local \<Rightarrow> TimeClip (UTC z local)
      | None \<Rightarrow> legacyParse z s)"

section \<open>Values and the coercion Number(v)\<close>

datatype jsval = JSUndefined | JSNull | JSBoolean bool | JSNumber jsnum | JSString string

text \<open>
  A character of a string is a code unit below 256.  The white space and line terminator
  characters of the language in that range are the five ASCII controls, the space and the
  no-break space U+00A0.
\<close>

definition isWhiteSpace :: "char \<Rightarrow> bool" where
  "isWhiteSpace c =
     (c \<in> {CHR '' '', CHR 0x09, CHR 0x0A, CHR 0x0B, CHR 0x0C, CHR 0x0D, CHR 0xA0})"

definition trim :: "string \<Rightarrow> string" where
  "trim s = rev (dropWhile isWhiteSpace (rev (dropWhile isWhiteSpace s)))"

definition pow10 :: "int \<Rightarrow> rat" where
  "pow10 e = (if 0 \<le> e then 10 ^ nat e else 1 / 10 ^ nat (- e))"

text \<open>The exponent part of a decimal literal: empty, or \<open>e\<close> with an optionally signed integer.\<close>

definition exponentPart :: "string \<Rightarrow> int option" where
  "exponentPart s =
     (case s of
        [] \<Rightarrow> Some 0
      | c # r \<Rightarrow>
          if c = CHR ''e'' \<or> c = CHR ''E'' then
            (case r of
               [] \<Rightarrow> None
             | g # r' \<Rightarrow>
                 if g = CHR ''+'' \<and> r' \<noteq> [] \<and> list_all isDigit r' then Some (decimal r')
                 else if g = CHR ''-'' \<and> r' \<noteq> [] \<and> list_all isDigit r'
                   then Some (- decimal r')
                 else if list_all isDigit r then Some (decimal r) else None)
          else None)"

text \<open>
  An unsigned decimal literal: \<open>Infinity\<close>, or digits with an optional fraction and exponent.
  Its value is the double nearest to the number written.
\<close>

definition unsignedDecimal :: "string \<Rightarrow> jsnum" where
  "unsignedDecimal s =
     (if s = ''Infinity'' then PosInf
      else
        (let ip = takeWhile isDigit s; r1 = dropWhile isDigit s;
             dot = (r1 \<noteq> [] \<and> hd r1 = CHR ''.'');
             fp = (if dot then takeWhile isDigit (tl r1) else []);
             r2 = (if dot then dropWhile isDigit (tl r1) else r1)
         in if ip = [] \<and> fp = [] then NaN
            else (case exponentPart r2 of
                    None \<Rightarrow> NaN
                  | Some e \<Rightarrow>
                      double ((of_int (decimal ip) + of_int (decimal fp) / 10 ^ length fp)
                              * pow10 e))))"

text \<open>The value of a digit in a radix up to 16; 36 for any other character.\<close>

definition radixValue :: "char \<Rightarrow> int" where
  "radixValue c =
     (if isDigit c then digitVal c
      else if c \<in> set ''abcdef'' then of_char c - 87
      else if c \<in> set ''ABCDEF'' then of_char c - 55 else 36)"

text \<open>A literal \<open>0x\<close>, \<open>0o\<close> or \<open>0b\<close> followed by digits of that radix.\<close>

definition nonDecimal :: "string \<Rightarrow> jsnum option" where
  "nonDecimal s =
     (case s of
        z # p # r \<Rightarrow>
          (let b = (if p \<in> set ''xX'' then 16 else if p \<in> set ''oO'' then 8
                    else if p \<in> set ''bB'' then 2 else 0)
           in if z = CHR ''0'' \<and> b \<noteq> 0 then
                Some (if r \<noteq> [] \<and> list_all (\<lambda>c. radixValue c < b) r
                      then double (of_int (foldl (\<lambda>n c. b * n + radixValue c) 0 r))
                      else NaN)
              else None)
      | _ \<Rightarrow> None)"

definition StringToNumber :: "string \<Rightarrow> jsnum" where
  "StringToNumber s =
     (let t = trim s
      in if t = [] then Fin 0
         else (case nonDecimal t of
                 Some n \<Rightarrow> n
               | None \<Rightarrow>
                   if hd t = CHR ''+'' then unsignedDecimal (tl t)
                   else if hd t = CHR ''-'' then js_neg (unsignedDecimal (tl t))
                   else unsignedDecimal t))"

definition Number :: "jsval \<Rightarrow> jsnum" where
  "Number v =
     (case v of
        JSUndefined \<Rightarrow> NaN
      | JSNull \<Rightarrow> Fin 0
      | JSBoolean b \<Rightarrow> Fin (if b then 1 else 0)
      | JSNumber n \<Rightarrow> n
      | JSString s \<Rightarrow> StringToNumber s)"

text \<open>
  The operator \<open>??\<close>: the right operand when the left one is \<open>null\<close> or \<open>undefined\<close>
  (\<open>None\<close>), the left one otherwise.
\<close>

definition nullish :: "'a option \<Rightarrow> 'a \<Rightarrow> 'a" where
  "nullish a b = (case a of None \<Rightarrow> b | Some v \<Rightarrow> v)"

section \<open>The environment of a call\<close>

text \<open>
  What a call reads from outside the program: the clock (\<open>Date.now()\<close> and \<open>new Date()\<close>, in
  milliseconds), the text of \<open>Math.random().toString(36)\<close>, and whether \<open>fs.writeFileSync\<close>
  succeeds.  One environment serves a whole call.
\<close>

record env =
  now :: int
  random36 :: string
  writable :: bool

function toString36 :: "int \<Rightarrow> string" where
  "toString36 n = (if n < 36 then [digit n] else toString36 (n div 36) @ [digit (n mod 36)])"
  by pat_completeness auto
termination
  by (relation "measure nat") auto

definition uuid :: "env \<Rightarrow> string" where
  "uuid e =
     (if now e < 0 then ''-'' else []) @ toString36 \<bar>now e\<bar> @ slice 2 8 (random36 e)"

definition formatDate :: "Date \<Rightarrow> error + string" where
  "formatDate d = (case toISOString d of Inl err \<Rightarrow> Inl err | Inr s \<Rightarrow> Inr (slice 0 10 s))"

definition startOfWeek :: "host \<Rightarrow> Date \<Rightarrow> Date" where
  "startOfWeek z date =
     (let d = date;
          day = js_rem (js_add (getDay z d) (Fin 6)) (Fin 7);
          d = setDate z d (js_sub (getDate z d) day);
          d = setHours z d 0 0 0 0
      in d)"

definition endOfWeek :: "host \<Rightarrow> Date \<Rightarrow> Date" where
  "endOfWeek z date =
     (let s = startOfWeek z date;
          e = s;
          e = setDate z e (js_add (getDate z s) (Fin 6));
          e = setHours z e 23 59 59 999
      in e)"

section \<open>The user profile\<close>

record stats =
  habitsCreated :: nat
  totalCompletions :: nat

record profile =
  u_name :: string
  u_createdAt :: string
  u_stats :: stats

section \<open>Habit\<close>

record Habit =
  h_id :: string
  h_name :: string
  targetFrequency :: jsnum
  completions :: "string list"
  h_createdAt :: string

text \<open>The constructor.  \<open>Number\<close> always returns a number, so \<open>??\<close> has a left operand.\<close>

definition new_Habit :: "env \<Rightarrow> string \<Rightarrow> jsval \<Rightarrow> Habit" where
  "new_Habit e name tf =
     \<lparr>h_id = uuid e,
      h_name = name,
      targetFrequency = nullish (Some (Number tf)) (Fin 0),
      completions = [],
      h_createdAt = isoString (now e)\<rparr>"

text \<open>
  \<open>markComplete(date)\<close>: the flag returned and the habit after the call, or the exception
  \<open>toISOString\<close> throws on an Invalid Date.
\<close>

definition markComplete :: "Date \<Rightarrow> Habit \<Rightarrow> error + bool \<times> Habit" where
  "markComplete date h =
     (case formatDate date of
        Inl err \<Rightarrow> Inl err
      | Inr dateStr \<Rightarrow>
          if dateStr \<notin> set (completions h)
          then Inr (True, h\<lparr>completions := completions h @ [dateStr]\<rparr>)
          else Inr (False, h))"

definition inWeek :: "host \<Rightarrow> Date \<Rightarrow> Date \<Rightarrow> string \<Rightarrow> bool" where
  "inWeek z start endd d =
     (let dt = newDateFromString z (d @ ''T00:00:00'')
      in js_ge (valueOf dt) (valueOf start) \<and> js_le (valueOf dt) (valueOf endd))"

definition getThisWeekCompletions :: "host \<Rightarrow> Date \<Rightarrow> Habit \<Rightarrow> string list" where
  "getThisWeekCompletions z referenceDate h =
     (let start = startOfWeek z referenceDate;
          endd = endOfWeek z referenceDate
      in filter (inWeek z start endd) (completions h))"

definition isCompletedThisWeek :: "host \<Rightarrow> Date \<Rightarrow> Habit \<Rightarrow> bool" where
  "isCompletedThisWeek z referenceDate h =
     js_ge (Fin (of_nat (length (getThisWeekCompletions z referenceDate h))))
       (targetFrequency h)"

definition getProgressPercentage :: "host \<Rightarrow> Date \<Rightarrow> Habit \<Rightarrow> jsnum" where
  "getProgressPercentage z referenceDate h =
     (let done = Fin (of_nat (length (getThisWeekCompletions z referenceDate h)))
      in if js_le (targetFrequency h) (Fin 0) then Fin 0
         else (let percent = js_mul (js_div done (targetFrequency h)) (Fin 100)
               in Math_min percent (Fin 100)))"

section \<open>The data file\<close>

text \<open>
  What \<open>JSON.parse\<close> returns for the data file.  A field is \<open>None\<close> when the key is missing
  or holds \<open>null\<close>, the two cases \<open>??\<close> replaces.
\<close>

record stored_habit =
  s_id :: "string option"
  s_name :: string
  s_targetFrequency :: "jsval option"
  s_completions :: "string list option"
  s_createdAt :: "string option"

record payload =
  p_user :: "profile option"
  p_habits :: "stored_habit list option"

datatype datafile = Missing | Unparseable | Content payload

text \<open>
  \<open>JSON.stringify\<close> of a habit.  NaN and the infinities are written as \<open>null\<close>; the methods
  of an object are not written.
\<close>

definition stringify_habit :: "Habit \<Rightarrow> stored_habit" where
  "stringify_habit h =
     \<lparr>s_id = Some (h_id h),
      s_name = h_name h,
      s_targetFrequency =
        (case targetFrequency h of Fin q \<Rightarrow> Some (JSNumber (Fin q)) | _ \<Rightarrow> None),
      s_completions = Some (completions h),
      s_createdAt = Some (h_createdAt h)\<rparr>"

section \<open>HabitTracker\<close>

text \<open>
  \<open>this.user\<close> is a reference: to the global object \<open>UserProfile\<close>, which has the methods
  \<open>updateStats\<close> and \<open>getDaysJoined\<close>, or to the plain object that \<open>JSON.parse\<close> returned
  for the key \<open>user\<close>, which has the data fields only.
\<close>

datatype userref = TheUserProfile | Parsed profile

record HabitTracker =
  habits :: "Habit list"
  user :: userref
  UserProfile :: profile
  DATA_FILE :: datafile

definition the_user :: "HabitTracker \<Rightarrow> profile" where
  "the_user t = (case user t of TheUserProfile \<Rightarrow> UserProfile t | Parsed p \<Rightarrow> p)"

definition updateStats :: "Habit list \<Rightarrow> profile \<Rightarrow> profile" where
  "updateStats hs p =
     (let p = p\<lparr>u_stats := (u_stats p)\<lparr>habitsCreated := length hs\<rparr>\<rparr>;
          n = foldl (\<lambda>n h. n + length (completions h)) 0 hs
      in p\<lparr>u_stats := (u_stats p)\<lparr>totalCompletions := n\<rparr>\<rparr>)"

text \<open>The call \<open>this.user.updateStats(this.habits)\<close>: a TypeError on an object without methods.\<close>

definition user_updateStats :: "HabitTracker \<Rightarrow> error + HabitTracker" where
  "user_updateStats t =
     (case user t of
        TheUserProfile \<Rightarrow> Inr (t\<lparr>UserProfile := updateStats (habits t) (UserProfile t)\<rparr>)
      | Parsed p \<Rightarrow> Inl TypeError)"

definition saveToFile :: "env \<Rightarrow> HabitTracker \<Rightarrow> HabitTracker" where
  "saveToFile e t =
     (let pl = \<lparr>p_user = Some (the_user t), p_habits = Some (map stringify_habit (habits t))\<rparr>
      in if writable e then t\<lparr>DATA_FILE := Content pl\<rparr> else t)"

definition restore :: "env \<Rightarrow> stored_habit \<Rightarrow> Habit" where
  "restore e h =
     (let habit = new_Habit e (s_name h) (nullish (s_targetFrequency h) (JSNumber (Fin 0)));
          habit = habit\<lparr>h_id := nullish (s_id h) (h_id habit)\<rparr>;
          habit = habit\<lparr>completions := nullish (s_completions h) []\<rparr>;
          habit = habit\<lparr>h_createdAt := nullish (s_createdAt h) (h_createdAt habit)\<rparr>
      in habit)"

text \<open>
  \<open>loadFromFile\<close> catches every exception raised in its body: the state it leaves is the one
  reached when the exception was thrown.
\<close>

definition loadFromFile :: "env \<Rightarrow> HabitTracker \<Rightarrow> HabitTracker" where
  "loadFromFile e t =
     (case DATA_FILE t of
        Missing \<Rightarrow> saveToFile e t
      | Unparseable \<Rightarrow> t
      | Content parsed \<Rightarrow>
          (let t = t\<lparr>user := (case p_user parsed of Some u \<Rightarrow> Parsed u | None \<Rightarrow> user t)\<rparr>;
               t = t\<lparr>habits := map (restore e) (nullish (p_habits parsed) [])\<rparr>
           in case user_updateStats t of Inl err \<Rightarrow> t | Inr t' \<Rightarrow> t'))"

text \<open>The constructor, given the file on disk and the global object as the module left it.\<close>

definition new_HabitTracker :: "env \<Rightarrow> profile \<Rightarrow> datafile \<Rightarrow> HabitTracker" where
  "new_HabitTracker e up f =
     loadFromFile e \<lparr>habits = [], user = TheUserProfile, UserProfile = up, DATA_FILE = f\<rparr>"

text \<open>
  A call returns a value or throws; either way it leaves a tracker state behind, so the
  result is the outcome paired with the state after the call.
\<close>

definition addHabit ::
  "env \<Rightarrow> string \<Rightarrow> jsval \<Rightarrow> HabitTracker \<Rightarrow> (error + Habit) \<times> HabitTracker" where
  "addHabit e name frequency t =
     (let h = new_Habit e name frequency;
          t = t\<lparr>habits := habits t @ [h]\<rparr>
      in case user_updateStats t of
           Inl err \<Rightarrow> (Inl err, t)
         | Inr t \<Rightarrow> (Inr h, saveToFile e t))"

text \<open>
  The element \<open>xs[idx]\<close> of an array, with its position: \<open>undefined\<close> (\<open>None\<close>) unless
  \<open>idx\<close> is an integer inside the array.
\<close>

definition element :: "'a list \<Rightarrow> jsnum \<Rightarrow> (nat \<times> 'a) option" where
  "element xs idx =
     (case idx of
        Fin q \<Rightarrow>
          if q = of_int \<lfloor>q\<rfloor> \<and> 0 \<le> q \<and> nat \<lfloor>q\<rfloor> < length xs
          then Some (nat \<lfloor>q\<rfloor>, xs ! nat \<lfloor>q\<rfloor>)
          else None
      | _ \<Rightarrow> None)"

definition invalidIndex :: "jsnum \<Rightarrow> 'a list \<Rightarrow> bool" where
  "invalidIndex idx xs =
     (isNaN idx \<or> js_lt idx (Fin 0) \<or> js_ge idx (Fin (of_nat (length xs))))"

datatype completeResult = Error string | Result Habit bool

text \<open>
  \<open>completeHabit\<close>.  Calling \<open>markComplete\<close> on \<open>undefined\<close> throws a TypeError; the habit
  found is changed in place, at its position in the array.
\<close>

definition completeHabit ::
  "env \<Rightarrow> jsval \<Rightarrow> HabitTracker \<Rightarrow> (error + completeResult) \<times> HabitTracker" where
  "completeHabit e habitIndex t =
     (let idx = Number habitIndex
      in if invalidIndex idx (habits t) then (Inr (Error ''Index tidak valid''), t)
         else
           (case element (habits t) idx of
              None \<Rightarrow> (Inl TypeError, t)
            | Some (i, habit) \<Rightarrow>
                (case markComplete (Some (now e)) habit of
                   Inl err \<Rightarrow> (Inl err, t)
                 | Inr (added, habit') \<Rightarrow>
                     (let t = t\<lparr>habits := (habits t)[i := habit']\<rparr>
                      in if added then
                           (case user_updateStats t of
                              Inl err \<Rightarrow> (Inl err, t)
                            | Inr t \<Rightarrow> (Inr (Result habit' added), saveToFile e t))
                         else (Inr (Result habit' added), t)))))"

text \<open>
  \<open>xs.splice(idx, 1)\<close>: the start is \<open>idx\<close> truncated to an integer, counted from the end
  when negative and clamped to the array; one element is removed there if there is one.
\<close>

definition splice1 :: "'a list \<Rightarrow> jsnum \<Rightarrow> 'a list" where
  "splice1 xs idx =
     (let len = int (length xs);
          start = (case idx of
                     NaN \<Rightarrow> 0
                   | Fin q \<Rightarrow> (if trunc q < 0 then max (len + trunc q) 0 else min (trunc q) len)
                   | PosInf \<Rightarrow> len
                   | NegInf \<Rightarrow> 0)
      in take (nat start) xs @ drop (nat start + 1) xs)"

definition deleteHabit ::
  "env \<Rightarrow> jsval \<Rightarrow> HabitTracker \<Rightarrow> (error + bool) \<times> HabitTracker" where
  "deleteHabit e habitIndex t =
     (let idx = Number habitIndex
      in if invalidIndex idx (habits t) then (Inr False, t)
         else
           (let t = t\<lparr>habits := splice1 (habits t) idx\<rparr>
            in case user_updateStats t of
                 Inl err \<Rightarrow> (Inl err, t)
               | Inr t \<Rightarrow> (Inr True, saveToFile e t)))"

section \<open>The callers in the command-line layer\<close>

text \<open>
  Menu entry 4 of \<open>handleMenu\<close>: the two answers are checked before \<open>addHabit\<close> is called.
  \<open>None\<close> is the branch that prints the message for an invalid input.
\<close>

definition handleMenu_4 ::
  "env \<Rightarrow> string \<Rightarrow> string \<Rightarrow> HabitTracker \<Rightarrow> (error + Habit option) \<times> HabitTracker" where
  "handleMenu_4 e name freq t =
     (let parsed = Number (JSString freq)
      in if trim name = [] \<or> isNaN parsed \<or> js_lt parsed (Fin 0) then (Inr None, t)
         else (case addHabit e (trim name) (JSNumber parsed) t of
                 (Inl err, t) \<Rightarrow> (Inl err, t)
               | (Inr h, t) \<Rightarrow> (Inr (Some h), t)))"

text \<open>
  The demo data of \<open>main\<close>, for a tracker without habits: two habits are added, and the
  first one is marked complete for today and for yesterday by calling \<open>markComplete\<close> on it
  directly; then the state is saved.
\<close>

definition main_demo :: "host \<Rightarrow> env \<Rightarrow> HabitTracker \<Rightarrow> (error + unit) \<times> HabitTracker" where
  "main_demo z e t =
     (if length (habits t) = 0 then
        (case addHabit e ''Belajar coding'' (JSNumber (Fin 5)) t of
           (Inl err, t) \<Rightarrow> (Inl err, t)
         | (Inr h1, t) \<Rightarrow>
             (case addHabit e ''Membaca buku'' (JSNumber (Fin 3)) t of
                (Inl err, t) \<Rightarrow> (Inl err, t)
              | (Inr h2, t) \<Rightarrow>
                  (case markComplete (Some (now e)) (habits t ! 0) of
                     Inl err \<Rightarrow> (Inl err, t)
                   | Inr (a1, h) \<Rightarrow>
                       (let t = t\<lparr>habits := (habits t)[0 := h]\<rparr>;
                            yesterday = Some (now e);
                            yesterday = setDate z yesterday (js_sub (getDate z yesterday) (Fin 1))
                        in case markComplete yesterday (habits t ! 0) of
                             Inl err \<Rightarrow> (Inl err, t)
                           | Inr (a2, h) \<Rightarrow> (Inr (), saveToFile e (t\<lparr>habits := (habits t)[0 := h]\<rparr>))))))
      else (Inr (), t))"

section \<open>Reference definitions\<close>

text \<open>
  The local time value of the Monday at 00:00:00.000 that starts the week of \<open>t\<close>: the local
  day of \<open>t\<close>, moved back by the number of days since Monday.
\<close>

definition mondayOf :: "host \<Rightarrow> int \<Rightarrow> int" where
  "mondayOf z t =
     (Day (LocalTime z t) - (WeekDay (LocalTime z t) + 6) mod 7) * msPerDay"

text \<open>
  The time values a Date can hold.  A local time value \<open>x\<close> reads back when the instant the
  host takes it for is a Date that has \<open>x\<close> as its local time (not so for a local time that
  a change of the offset skips), and keeps its day when that instant is a Date on the same
  local day.
\<close>

definition inRange :: "int \<Rightarrow> bool" where
  "inRange t = (\<bar>t\<bar> \<le> 8640000000000000)"

definition readsBack :: "host \<Rightarrow> int \<Rightarrow> bool" where
  "readsBack z x = (inRange (UTC z x) \<and> LocalTime z (UTC z x) = x)"

definition keepsDay :: "host \<Rightarrow> int \<Rightarrow> bool" where
  "keepsDay z x = (inRange (UTC z x) \<and> Day (LocalTime z (UTC z x)) = Day x)"

text \<open>
  The week of \<open>t\<close> is regular on a host when the four local times that \<open>startOfWeek\<close> and
  \<open>endOfWeek\<close> pass through are ones the host converts without loss: the Monday at the
  time of day of \<open>t\<close> and the Sunday at midnight keep their day, the Monday at midnight and
  the Sunday at 23:59:59.999 read back.
\<close>

definition regularWeek :: "host \<Rightarrow> int \<Rightarrow> bool" where
  "regularWeek z t =
     (inRange t \<and>
      keepsDay z (mondayOf z t + TimeWithinDay (LocalTime z t)) \<and>
      readsBack z (mondayOf z t) \<and>
      keepsDay z (mondayOf z t + 6 * msPerDay) \<and>
      readsBack z (mondayOf z t + 6 * msPerDay + MakeTime 23 59 59 999))"

text \<open>The statistics recomputed from a habit sequence: its length and the sum of the
  completion counts.\<close>

definition stats_of :: "Habit list \<Rightarrow> stats" where
  "stats_of hs =
     \<lparr>habitsCreated = length hs, totalCompletions = sum_list (map (\<lambda>h. length (completions h)) hs)\<rparr>"

text \<open>The body of \<open>getProgressPercentage\<close> as a function of the number of completions in
  the week and of the target.\<close>

definition progress :: "nat \<Rightarrow> jsnum \<Rightarrow> jsnum" where
  "progress n tf =
     (if js_le tf (Fin 0) then Fin 0
      else Math_min (js_mul (js_div (Fin (of_nat n)) tf) (Fin 100)) (Fin 100))"

text \<open>A number that is not negative: plus infinity or a rational from 0 on.\<close>

definition nonnegative :: "jsnum \<Rightarrow> bool" where
  "nonnegative x = (case x of Fin v \<Rightarrow> 0 \<le> v | PosInf \<Rightarrow> True | _ \<Rightarrow> False)"

section \<open>Sample values\<close>

text \<open>
  Four hosts: one on UTC, one seven hours ahead of UTC all year (Jakarta), one on the rules
  of New York for 2024 (five hours behind UTC, four from 2024-03-10 02:00 to 2024-11-03
  02:00 local time) and one on the rules of Tehran for 2021 (three and a half hours ahead of
  UTC, four and a half from 2021-03-22 00:00 to 2021-09-22 00:00 local time).  A local time
  that a change of the offset skips or repeats is taken at the offset before the change.  No
  string parsed in the examples is left to the parser of the host.
\<close>

definition zoneUTC :: host where
  "zoneUTC = \<lparr>LocalTZA = (\<lambda>t isUTC. 0), legacyParse = (\<lambda>s. None)\<rparr>"

definition zoneJakarta :: host where
  "zoneJakarta = \<lparr>LocalTZA = (\<lambda>t isUTC. 25200000), legacyParse = (\<lambda>s. None)\<rparr>"

definition zoneNewYork2024 :: host where
  "zoneNewYork2024 =
     \<lparr>LocalTZA =
        (\<lambda>t isUTC.
           if isUTC then (if 1710054000000 \<le> t \<and> t < 1730613600000 then - 14400000 else - 18000000)
           else (if 1710039600000 \<le> t \<and> t < 1730599200000 then - 14400000 else - 18000000)),
      legacyParse = (\<lambda>s. None)\<rparr>"

definition zoneTehran2021 :: host where
  "zoneTehran2021 =
     \<lparr>LocalTZA =
        (\<lambda>t isUTC.
           if isUTC then (if 1616358600000 \<le> t \<and> t < 1632252600000 then 16200000 else 12600000)
           else (if 1616374800000 \<le> t \<and> t < 1632268800000 then 16200000 else 12600000)),
      legacyParse = (\<lambda>s. None)\<rparr>"

text \<open>Monday 2024-01-01 at 01:00 UTC.\<close>

definition monday_1am :: int where
  "monday_1am = 1704070800000"

text \<open>Sunday 2023-12-31 at 23:00 UTC.  In Jakarta it is Monday 2024-01-01 at 06:00 then, and
  at 08:00 at \<open>monday_1am\<close>.\<close>

definition sunday_11pm :: int where
  "sunday_11pm = 1704063600000"

text \<open>Friday 2024-03-08 at 12:00 in New York, in the week in which the clocks go forward.\<close>

definition march_8_noon :: int where
  "march_8_noon = 1709917200000"

text \<open>Wednesday 2021-03-24 at 12:00 in Tehran, two days after the clocks went forward at
  midnight.\<close>

definition march_24_noon :: int where
  "march_24_noon = 1616571000000"

text \<open>The first instant a Date can hold, a Tuesday.\<close>

definition first_instant :: int where
  "first_instant = - 8640000000000000"

definition habit_Read :: Habit where
  "habit_Read =
     \<lparr>h_id = ''lqu5ovk0abcdef'', h_name = ''Read'', targetFrequency = Fin 3,
      completions = [], h_createdAt = ''2024-01-01T00:00:00.000Z''\<rparr>"

definition habit_Write :: Habit where
  "habit_Write =
     \<lparr>h_id = ''lqu5ovk0ghijkl'', h_name = ''Write'', targetFrequency = Fin 0,
      completions = [], h_createdAt = ''2024-01-01T00:00:00.000Z''\<rparr>"

text \<open>A habit with the target 25 that was completed on each of the seven days of a week.\<close>

definition habit_Walk :: Habit where
  "habit_Walk =
     \<lparr>h_id = ''lqu5ovk0mnopqr'', h_name = ''Walk'', targetFrequency = Fin 25,
      completions = [''2024-01-01'', ''2024-01-02'', ''2024-01-03'', ''2024-01-04'',
                     ''2024-01-05'', ''2024-01-06'', ''2024-01-07''],
      h_createdAt = ''2024-01-01T00:00:00.000Z''\<rparr>"

definition env0 :: env where
  "env0 = \<lparr>now = monday_1am, random36 = ''0.k3j2h1g9fz'', writable = True\<rparr>"

definition profile0 :: profile where
  "profile0 =
     \<lparr>u_name = ''User'', u_createdAt = ''2024-01-01T00:00:00.000Z'',
      u_stats = \<lparr>habitsCreated = 0, totalCompletions = 0\<rparr>\<rparr>"

text \<open>The tracker of a first run, with no data file, before and after the demo data of
  \<open>main\<close>.\<close>

definition tracker_new :: HabitTracker where
  "tracker_new = new_HabitTracker env0 profile0 Missing"

definition tracker_demo :: HabitTracker where
  "tracker_demo = snd (main_demo zoneUTC env0 tracker_new)"

text \<open>Uniqueness per calendar day: no date twice in any completions list, of the habits in
  memory and of the habits a data file holds.\<close>

definition unique_days :: "Habit list \<Rightarrow> bool" where
  "unique_days hs = list_all (\<lambda>h. distinct (completions h)) hs"

definition file_unique :: "datafile \<Rightarrow> bool" where
  "file_unique f =
     (case f of
        Content p \<Rightarrow> list_all (\<lambda>s. distinct (nullish (s_completions s) [])) (nullish (p_habits p) [])
      | _ \<Rightarrow> True)"

text \<open>A data file in which one date is recorded twice for a habit.\<close>

definition file_twice :: datafile where
  "file_twice =
     Content
       \<lparr>p_user = None,
        p_habits = Some
          [\<lparr>s_id = Some ''lqu5ovk0abcdef'', s_name = ''Read'',
            s_targetFrequency = Some (JSNumber (Fin 3)),
            s_completions = Some [''2024-01-01'', ''2024-01-01''],
            s_createdAt = Some ''2024-01-01T00:00:00.000Z''\<rparr>]\<rparr>"

text \<open>The invariant of the tracker and its file that the operations keep.\<close>

definition tracker_inv :: "HabitTracker \<Rightarrow> bool" where
  "tracker_inv t = (unique_days (habits t) \<and> file_unique (DATA_FILE t))"

section \<open>The calendar\<close>

lemma div_bounds: "0 < k \<Longrightarrow> k * (a div k) \<le> a \<and> a < k * (a div k) + k" for a k :: int
  using mult_div_mod_eq [of k a] pos_mod_bound [of k a] pos_mod_sign [of k a] by linarith

lemma DayFromYear_upper: "400 * DayFromYear y \<le> 146097 * (y - 1970) + 589"
  using div_bounds [of 4 "y - 1969"] div_bounds [of 100 "y - 1901"] div_bounds [of 400 "y - 1601"]
  unfolding DayFromYear_def by simp

lemma DayFromYear_lower: "146097 * (y - 1970) - 506 \<le> 400 * DayFromYear y"
  using div_bounds [of 4 "y - 1969"] div_bounds [of 100 "y - 1901"] div_bounds [of 400 "y - 1601"]
  unfolding DayFromYear_def by simp

text \<open>\<open>YearFromDay\<close> computes the year as the language defines it: the year whose first day
  is the last one not after \<open>d\<close>.\<close>

lemma YearFromDay_spec:
  "DayFromYear (YearFromDay d) \<le> d \<and> d < DayFromYear (YearFromDay d + 1)"
proof -
  define y where "y = 1970 + (400 * d) div 146097"
  have lo: "146097 * (y - 1970) \<le> 400 * d" and hi: "400 * d < 146097 * (y - 1970) + 146097"
    using div_bounds [of 146097 "400 * d"] unfolding y_def by simp_all
  note u1 = DayFromYear_upper [of "y - 1"] and l2 = DayFromYear_lower [of "y + 2"]
  consider "d < DayFromYear y" | "DayFromYear y \<le> d" "DayFromYear (y + 1) \<le> d"
    | "DayFromYear y \<le> d" "d < DayFromYear (y + 1)"
    by linarith
  then show ?thesis
  proof cases
    case 1
    then have "YearFromDay d = y - 1" by (simp add: YearFromDay_def y_def Let_def)
    moreover have "DayFromYear (y - 1) \<le> d" using u1 lo by simp
    ultimately show ?thesis using 1 by simp
  next
    case 2
    then have "YearFromDay d = y + 1" by (simp add: YearFromDay_def y_def Let_def)
    moreover have "d < DayFromYear (y + 2)" using l2 hi by simp
    ultimately show ?thesis using 2 by (simp add: add.commute add.left_commute)
  next
    case 3
    then have "YearFromDay d = y" by (simp add: YearFromDay_def y_def Let_def)
    then show ?thesis using 3 by simp
  qed
qed

lemma msPerDay_pos: "0 < msPerDay"
  by (simp add: msPerDay_def)

lemma Day_shift: "Day (t + k * msPerDay) = Day t + k"
  using msPerDay_pos by (simp add: Day_def)

lemma Day_mult: "Day (k * msPerDay) = k"
  using msPerDay_pos by (simp add: Day_def)

lemma Day_offset: "0 \<le> r \<Longrightarrow> r < msPerDay \<Longrightarrow> Day (k * msPerDay + r) = k"
  by (simp add: Day_def div_pos_pos_trivial)

lemma TimeWithinDay_mult: "TimeWithinDay (k * msPerDay) = 0"
  by (simp add: TimeWithinDay_def)

lemma TimeWithinDay_offset:
  "0 \<le> r \<Longrightarrow> r < msPerDay \<Longrightarrow> TimeWithinDay (k * msPerDay + r) = r"
  by (simp add: TimeWithinDay_def)

lemma Day_TimeWithinDay: "MakeDate (Day t) (TimeWithinDay t) = t"
  by (simp add: MakeDate_def Day_def TimeWithinDay_def)

lemma WeekDay_range: "0 \<le> WeekDay t \<and> WeekDay t \<le> 6"
  by (simp add: WeekDay_def)

lemma MonthFromTime_range: "0 \<le> MonthFromTime t \<and> MonthFromTime t \<le> 11"
  by (simp add: MonthFromTime_def Let_def)

text \<open>Rebuilding a day from the year and month of \<open>t\<close> and a shifted day of the month
  shifts the day number by as much.\<close>

lemma MakeDay_own: "MakeDay (YearFromTime t) (MonthFromTime t) (DateFromTime t + k) = Day t + k"
proof -
  have "MonthFromTime t div 12 = 0" "MonthFromTime t mod 12 = MonthFromTime t"
    using MonthFromTime_range [of t] by simp_all
  then show ?thesis
    by (simp add: MakeDay_def DateFromTime_def DayWithinYear_def InLeapYear_def Let_def)
qed

text \<open>The day numbers of consecutive years differ by the length of the year, so a day
  within the year and a day of the month stay inside their tables.\<close>

lemma div_step:
  fixes a k :: int
  assumes "0 < k"
  shows "(a + 1) div k - a div k = (if (a + 1) mod k = 0 then 1 else 0)"
proof -
  have r: "0 \<le> a mod k" "a mod k < k" using assms by simp_all
  have eq: "a + 1 = k * (a div k) + (a mod k + 1)" by simp
  show ?thesis
  proof (cases "a mod k + 1 = k")
    case True
    then have "a + 1 = k * (a div k + 1)" using eq by (simp add: algebra_simps)
    then have "(a + 1) div k = a div k + 1" "(a + 1) mod k = 0"
      using assms by simp_all
    then show ?thesis by simp
  next
    case False
    then have b: "0 \<le> a mod k + 1" "a mod k + 1 < k" using r by simp_all
    have "(a + 1) div k = a div k" by (rule int_div_pos_eq [OF eq b])
    moreover have "(a + 1) mod k = a mod k + 1" by (rule int_mod_pos_eq [OF eq b])
    ultimately show ?thesis using b r by simp
  qed
qed

lemma year_offsets_mod: fixes y :: int shows "(y - 1968) mod 4 = y mod 4" "(y - 1900) mod 100 = y mod 100"
    "(y - 1600) mod 400 = y mod 400"
    using mod_diff_eq [of y 4 1968, symmetric] mod_diff_eq [of y 100 1900, symmetric] mod_diff_eq [of y 400 1600, symmetric]
    by simp_all

lemma DayFromYear_diff:
  "DayFromYear (y + 1) - DayFromYear y =
      365 + ((y - 1968) div 4 - (y - 1969) div 4) - ((y - 1900) div 100 - (y - 1901) div 100)
        + ((y - 1600) div 400 - (y - 1601) div 400)"
  by (simp add: DayFromYear_def)

lemma leap_step4: "(y - 1968) div 4 - (y - 1969) div 4 = (if y mod 4 = 0 then 1 else 0)"
  for y :: int
  using div_step [of 4 "y - 1969"] by (simp add: year_offsets_mod)

lemma leap_step100: "(y - 1900) div 100 - (y - 1901) div 100 = (if y mod 100 = 0 then 1 else 0)"
  for y :: int
  using div_step [of 100 "y - 1901"] by (simp add: year_offsets_mod)

lemma leap_step400: "(y - 1600) div 400 - (y - 1601) div 400 = (if y mod 400 = 0 then 1 else 0)"
  for y :: int
  using div_step [of 400 "y - 1601"] by (simp add: year_offsets_mod)


lemma leap_chain: "y mod 400 = 0 \<Longrightarrow> y mod 100 = 0" "y mod 100 = 0 \<Longrightarrow> y mod 4 = 0"
  for y :: int
proof -
  have "y mod 400 mod 100 = y mod 100" "y mod 100 mod 4 = y mod 4"
    by (rule mod_mod_cancel, simp)+
  then show "y mod 400 = 0 \<Longrightarrow> y mod 100 = 0" "y mod 100 = 0 \<Longrightarrow> y mod 4 = 0"
    by (metis mod_0)+
qed

lemma DayFromYear_step: "DayFromYear (y + 1) = DayFromYear y + DaysInYear y"
proof -
  have "DayFromYear (y + 1) - DayFromYear y =
      365 + (if y mod 4 = 0 then 1 else 0) - (if y mod 100 = 0 then 1 else 0)
        + (if y mod 400 = 0 then 1 else 0)"
    unfolding DayFromYear_diff leap_step4 leap_step100 leap_step400 ..
  also have "\<dots> = DaysInYear y"
    using leap_chain [of y] by (auto simp: DaysInYear_def)
  finally show ?thesis by simp
qed

lemma DayWithinYear_range:
  "0 \<le> DayWithinYear t \<and> DayWithinYear t < DaysInYear (YearFromTime t)"
  using YearFromDay_spec [of "Day t"] DayFromYear_step [of "YearFromTime t"]
  by (simp add: DayWithinYear_def YearFromTime_def)

lemma DaysInYear_cases: "DaysInYear y = 365 \<or> DaysInYear y = 366"
  by (simp add: DaysInYear_def)


lemma InLeapYear_days: "DaysInYear (YearFromTime t) = 365 + InLeapYear t"
  using DaysInYear_cases [of "YearFromTime t"] by (auto simp: InLeapYear_def)

lemma InLeapYear_cases: "InLeapYear t = 0 \<or> InLeapYear t = 1"
  by (simp add: InLeapYear_def)

lemma DateFromTime_range: "1 \<le> DateFromTime t \<and> DateFromTime t \<le> 31"
proof -
  have d: "0 \<le> DayWithinYear t" "DayWithinYear t < 365 + InLeapYear t"
    using DayWithinYear_range [of t] InLeapYear_days [of t] by simp_all
  from InLeapYear_cases [of t] show ?thesis
  proof
    assume "InLeapYear t = 0"
    with d show ?thesis
      by (simp add: DateFromTime_def MonthFromTime_def monthStart_def Let_def)
  next
    assume "InLeapYear t = 1"
    with d show ?thesis
      by (simp add: DateFromTime_def MonthFromTime_def monthStart_def Let_def)
  qed
qed

section \<open>Properties of the rounding\<close>

lemma ilen_nonneg: "0 \<le> ilen a"
proof (induction a rule: ilen.induct)
  case (1 a)
  show ?case
  proof (cases "a \<le> 0")
    case True
    then show ?thesis by (subst ilen.simps) simp
  next
    case False
    with 1 have "0 \<le> ilen (a div 2)" by simp
    with False show ?thesis by (subst ilen.simps) simp
  qed
qed

lemma ilen_bounds: "0 < a \<Longrightarrow> 2 powi (ilen a - 1) \<le> (of_int a :: rat) \<and> (of_int a :: rat) < 2 powi (ilen a)"
proof (induction a rule: ilen.induct)
  case (1 a)
  show ?case
  proof (cases "a = 1")
    case True
    have "ilen 1 = 1" by code_simp
    with True show ?thesis by simp
  next
    case False
    with 1(2) have h: "0 < a div 2" by simp
    then have ih: "2 powi (ilen (a div 2) - 1) \<le> (of_int (a div 2) :: rat)"
      "(of_int (a div 2) :: rat) < 2 powi (ilen (a div 2))"
      using 1(1) 1(2) by simp_all
    have l: "ilen a = 1 + ilen (a div 2)" using 1(2) by (subst ilen.simps) simp
    have p: "(2::rat) powi (ilen a - 1) = 2 powi (ilen (a div 2) - 1) * 2"
      "(2::rat) powi (ilen a) = 2 powi (ilen (a div 2)) * 2"
      unfolding l by (simp_all add: power_int_add power_int_diff)
    have n: "ilen (a div 2) \<ge> 0" by (rule ilen_nonneg)
    obtain m :: nat where m: "ilen (a div 2) = int m" using n nonneg_int_cases by blast
    have "(of_int (a div 2) :: rat) < of_int (2 ^ m)" using ih(2) by (simp add: m)
    then have "a div 2 < 2 ^ m" by (simp only: of_int_less_iff)
    then have "a div 2 + 1 \<le> 2 ^ m" by simp
    then have "a < 2 * 2 ^ m" by linarith
    then have up: "(of_int a :: rat) < 2 powi (ilen (a div 2)) * 2"
      unfolding m by (metis mult.commute of_int_less_iff of_int_mult of_int_numeral of_int_power power_int_of_nat)
    have "2 * (a div 2) \<le> a" by simp
    then have "(of_int (a div 2) :: rat) * 2 \<le> of_int a"
      by (metis mult.commute of_int_le_iff of_int_mult of_int_numeral)
    with ih(1) have lo: "2 powi (ilen (a div 2) - 1) * 2 \<le> (of_int a :: rat)" by linarith
    show ?thesis unfolding p using lo up by simp
  qed
qed


lemma ilog2_bounds:
  assumes "0 < q"
  shows "2 powi (ilog2 q) \<le> q \<and> q < 2 powi (ilog2 q + 1)"
proof (cases "1 \<le> q")
  case True
  then have f: "0 < \<lfloor>q\<rfloor>" by simp
  note b = ilen_bounds [OF f]
  obtain m :: nat where m: "ilen \<lfloor>q\<rfloor> = int m" using ilen_nonneg nonneg_int_cases by blast
  have "(of_int \<lfloor>q\<rfloor> :: rat) < of_int (2 ^ m)" using b by (simp add: m)
  then have "\<lfloor>q\<rfloor> < 2 ^ m" by (simp only: of_int_less_iff)
  then have "q < of_int (2 ^ m)" by (simp only: floor_less_iff)
  then have "q < 2 powi (ilen \<lfloor>q\<rfloor>)" by (simp add: m)
  moreover have "2 powi (ilen \<lfloor>q\<rfloor> - 1) \<le> q"
    using b of_int_floor_le [of q] by linarith
  ultimately show ?thesis using True by (simp add: ilog2_def)
next
  case False
  define r where "r = 1 / q"
  define k where "k = ilen \<lfloor>r\<rfloor> - 1"
  have r: "1 < r" "0 < r" using assms False by (simp_all add: r_def)
  then have f: "0 < \<lfloor>r\<rfloor>" by simp
  note b = ilen_bounds [OF f]
  obtain m :: nat where m: "ilen \<lfloor>r\<rfloor> = int m" using ilen_nonneg nonneg_int_cases by blast
  have "(of_int \<lfloor>r\<rfloor> :: rat) < of_int (2 ^ m)" using b by (simp add: m)
  then have "\<lfloor>r\<rfloor> < 2 ^ m" by (simp only: of_int_less_iff)
  then have "r < of_int (2 ^ m)" by (simp only: floor_less_iff)
  then have up: "r < 2 powi (k + 1)" by (simp add: m k_def)
  have lo: "2 powi k \<le> r" using b of_int_floor_le [of r] unfolding k_def by linarith
  have q: "q = 1 / r" using assms by (simp add: r_def)
  have pk: "(0::rat) < 2 powi k" "(0::rat) < 2 powi (k + 1)" by simp_all
  have lo': "2 powi (- k - 1) < q"
  proof -
    have "1 / 2 powi (k + 1) < 1 / r" using up r pk by (simp add: frac_less2)
    moreover have "(2::rat) powi (- k - 1) = 1 / 2 powi (k + 1)"
    proof -
      have "- k - 1 = - (k + 1)" by simp
      then show ?thesis by (simp only: power_int_minus inverse_eq_divide)
    qed
    ultimately show ?thesis by (simp add: q)
  qed
  have up': "q \<le> 2 powi (- k)"
  proof -
    have "1 / r \<le> 1 / 2 powi k" using lo r pk by (simp add: frac_le)
    moreover have "(2::rat) powi (- k) = 1 / 2 powi k"
      by (simp only: power_int_minus inverse_eq_divide)
    ultimately show ?thesis by (simp add: q)
  qed
  have e: "ilog2 q = (if q * 2 powi k = 1 then - k else - k - 1)"
    using False by (simp add: ilog2_def Let_def k_def r_def)
  show ?thesis
  proof (cases "q * 2 powi k = 1")
    case True
    then have "q = 1 / 2 powi k" using pk by (simp add: field_simps)
    then have "q = 2 powi (- k)" by (simp only: power_int_minus inverse_eq_divide)
    moreover have "(2::rat) powi (- k) < 2 powi (- k + 1)"
      by (rule power_int_strict_increasing) simp_all
    ultimately show ?thesis using True e by simp
  next
    case False
    then have "q \<noteq> 1 / 2 powi k" using pk by (auto simp: field_simps)
    then have "q \<noteq> 2 powi (- k)" by (simp add: power_int_minus inverse_eq_divide)
    with up' have "q < 2 powi (- k)" by simp
    moreover have "- k - 1 + 1 = - k" by simp
    ultimately show ?thesis using False e lo' by simp
  qed
qed

lemma roundHalfEven_cases: "roundHalfEven x = \<lfloor>x\<rfloor> \<or> roundHalfEven x = \<lfloor>x\<rfloor> + 1"
  by (simp add: roundHalfEven_def Let_def)

lemma roundHalfEven_of_int [simp]: "roundHalfEven (of_int n) = n"
  by (simp add: roundHalfEven_def Let_def)

lemma roundHalfEven_ge:
  assumes "of_int n \<le> x"
  shows "n \<le> roundHalfEven x"
proof -
  have "n \<le> \<lfloor>x\<rfloor>" using assms by (simp add: le_floor_iff)
  then show ?thesis using roundHalfEven_cases [of x] by auto
qed

lemma roundHalfEven_le:
  assumes "x \<le> of_int n"
  shows "roundHalfEven x \<le> n"
proof (cases "x = of_int n")
  case True
  then show ?thesis by simp
next
  case False
  with assms have "x < of_int n" by simp
  then have "\<lfloor>x\<rfloor> < n" by (simp add: floor_less_iff)
  then show ?thesis using roundHalfEven_cases [of x] by auto
qed

lemma roundHalfEven_error: "\<bar>of_int (roundHalfEven x) - x\<bar> \<le> 1 / 2"
proof -
  define f where "f = \<lfloor>x\<rfloor>"
  have "0 \<le> x - of_int f" "x - of_int f < 1" unfolding f_def by linarith+
  then show ?thesis
    unfolding roundHalfEven_def Let_def f_def [symmetric]
    by (simp add: abs_if) linarith?
qed

lemma roundHalfEven_mono:
  assumes "x \<le> y"
  shows "roundHalfEven x \<le> roundHalfEven y"
proof (cases "\<lfloor>x\<rfloor> = \<lfloor>y\<rfloor>")
  case True
  then have "x - of_int \<lfloor>x\<rfloor> \<le> y - of_int \<lfloor>y\<rfloor>" using assms by simp
  then show ?thesis using True by (auto simp: roundHalfEven_def Let_def)
next
  case False
  then have "\<lfloor>x\<rfloor> < \<lfloor>y\<rfloor>" using floor_mono [OF assms] by simp
  then show ?thesis using roundHalfEven_cases [of x] roundHalfEven_cases [of y] by auto
qed

lemma ilog2_mono:
  assumes "0 < x" "x \<le> y"
  shows "ilog2 x \<le> ilog2 y"
proof (rule ccontr)
  assume "\<not> ilog2 x \<le> ilog2 y"
  then have "ilog2 y + 1 \<le> ilog2 x" by simp
  then have "(2::rat) powi (ilog2 y + 1) \<le> 2 powi (ilog2 x)"
    by (intro power_int_increasing) simp_all
  moreover have "y < 2 powi (ilog2 y + 1)" "2 powi (ilog2 x) \<le> x"
    using ilog2_bounds [of x] ilog2_bounds [of y] assms by simp_all
  ultimately show False using assms by linarith
qed

lemma ilog2_ge:
  assumes "2 powi e \<le> q"
  shows "e \<le> ilog2 q"
proof (rule ccontr)
  have "(0::rat) < 2 powi e" by simp
  with assms have q: "0 < q" by linarith
  assume "\<not> e \<le> ilog2 q"
  then have "ilog2 q + 1 \<le> e" by simp
  then have "(2::rat) powi (ilog2 q + 1) \<le> 2 powi e"
    by (intro power_int_increasing) simp_all
  moreover have "q < 2 powi (ilog2 q + 1)" using ilog2_bounds [OF q] by simp
  ultimately show False using assms by linarith
qed

lemma ilog2_less:
  assumes "0 < q" "q < 2 powi e"
  shows "ilog2 q < e"
proof (rule ccontr)
  assume "\<not> ilog2 q < e"
  then have "e \<le> ilog2 q" by simp
  then have "(2::rat) powi e \<le> 2 powi (ilog2 q)"
    by (intro power_int_increasing) simp_all
  moreover have "2 powi (ilog2 q) \<le> q" using ilog2_bounds [OF assms(1)] by simp
  ultimately show False using assms by linarith
qed

lemma pow2_add: "(2::rat) powi (a + b) = 2 powi a * 2 powi b"
  by (simp add: power_int_add)

lemma pow2_pos: "(0::rat) < 2 powi p"
  by simp

lemma pow2_53: "(2::rat) powi (e + 1) = of_int (2 ^ 53) * 2 powi (e - 52)"
proof -
  have "(2::rat) powi (e + 1) = 2 powi (53 + (e - 52))"
    by (rule arg_cong [where f = "\<lambda>k. 2 powi k"]) simp
  also have "\<dots> = 2 powi 53 * 2 powi (e - 52)" by (rule pow2_add)
  finally show ?thesis by simp
qed

lemma pow2_52: "(2::rat) powi e = of_int (2 ^ 52) * 2 powi (e - 52)"
proof -
  have "(2::rat) powi e = 2 powi (52 + (e - 52))"
    by (rule arg_cong [where f = "\<lambda>k. 2 powi k"]) simp
  also have "\<dots> = 2 powi 52 * 2 powi (e - 52)" by (rule pow2_add)
  finally show ?thesis by simp
qed

lemma scaled_le: "x \<le> c * 2 powi p \<Longrightarrow> x / 2 powi p \<le> (c::rat)"
  using pow2_pos [of p] by (simp add: field_simps)

lemma scaled_ge: "c * 2 powi p \<le> x \<Longrightarrow> (c::rat) \<le> x / 2 powi p"
  using pow2_pos [of p] by (simp add: field_simps)

lemma times_pow2_mono: "a \<le> b \<Longrightarrow> of_int a * 2 powi p \<le> (of_int b * 2 powi p :: rat)"
  by (rule mult_right_mono) simp_all

lemma rounded_upper:
  assumes "0 < x" "ilog2 x \<le> e"
  shows "of_int (roundHalfEven (x / 2 powi (e - 52))) * 2 powi (e - 52) \<le> (2::rat) powi (e + 1)"
proof -
  have "x < 2 powi (ilog2 x + 1)" using ilog2_bounds [OF assms(1)] by simp
  also have "\<dots> \<le> 2 powi (e + 1)" using assms(2) by (intro power_int_increasing) simp_all
  finally have "x \<le> of_int (2 ^ 53) * 2 powi (e - 52)" unfolding pow2_53 by simp
  then have "x / 2 powi (e - 52) \<le> of_int (2 ^ 53)" by (rule scaled_le)
  then have "roundHalfEven (x / 2 powi (e - 52)) \<le> 2 ^ 53" by (rule roundHalfEven_le)
  then show ?thesis unfolding pow2_53 by (rule times_pow2_mono)
qed

lemma rounded_lower:
  assumes "2 powi e \<le> y"
  shows "(2::rat) powi e \<le> of_int (roundHalfEven (y / 2 powi (e - 52))) * 2 powi (e - 52)"
proof -
  have "of_int (2 ^ 52) * 2 powi (e - 52) \<le> y" using assms unfolding pow2_52 [of e] .
  then have "of_int (2 ^ 52) \<le> y / 2 powi (e - 52)" by (rule scaled_ge)
  then have "2 ^ 52 \<le> roundHalfEven (y / 2 powi (e - 52))" by (rule roundHalfEven_ge)
  then have "of_int (2 ^ 52) * 2 powi (e - 52) \<le>
      (of_int (roundHalfEven (y / 2 powi (e - 52))) * 2 powi (e - 52) :: rat)"
    by (rule times_pow2_mono)
  then show ?thesis unfolding pow2_52 [of e, symmetric] .
qed

lemma nearest_mono:
  assumes "0 < x" "x \<le> y"
  shows "nearest x \<le> nearest y"
proof -
  define ex where "ex = max (ilog2 x) (- 1022)"
  define ey where "ey = max (ilog2 y) (- 1022)"
  have le: "ex \<le> ey" using ilog2_mono [OF assms] by (simp add: ex_def ey_def)
  have y: "0 < y" using assms by linarith
  have goal: "of_int (roundHalfEven (x / 2 powi (ex - 52))) * 2 powi (ex - 52) \<le>
        (of_int (roundHalfEven (y / 2 powi (ey - 52))) * 2 powi (ey - 52) :: rat)"
  proof (cases "ex = ey")
    case True
    have "x / 2 powi (ey - 52) \<le> y / 2 powi (ey - 52)"
      using assms(2) by (rule divide_right_mono) simp
    then have "roundHalfEven (x / 2 powi (ey - 52)) \<le> roundHalfEven (y / 2 powi (ey - 52))"
      by (rule roundHalfEven_mono)
    then show ?thesis unfolding True by (rule times_pow2_mono)
  next
    case False
    with le have lt: "ex + 1 \<le> ey" by simp
    then have "ey = ilog2 y" unfolding ey_def ex_def by simp
    then have "2 powi ey \<le> y" using ilog2_bounds [OF y] by simp
    then have lo: "(2::rat) powi ey \<le>
        of_int (roundHalfEven (y / 2 powi (ey - 52))) * 2 powi (ey - 52)"
      by (rule rounded_lower)
    have "ilog2 x \<le> ex" by (simp add: ex_def)
    then have up: "of_int (roundHalfEven (x / 2 powi (ex - 52))) * 2 powi (ex - 52) \<le>
        (2::rat) powi (ex + 1)"
      by (rule rounded_upper [OF assms(1)])
    have "(2::rat) powi (ex + 1) \<le> 2 powi ey" using lt by (intro power_int_increasing) simp_all
    with lo up show ?thesis by linarith
  qed
  then show ?thesis by (simp only: nearest_def ulpExponent_def ex_def ey_def)
qed

lemma nearest_nonneg:
  assumes "0 < x"
  shows "0 \<le> nearest x"
proof -
  have "of_int 0 \<le> x / 2 powi ulpExponent x" using assms by simp
  then have "0 \<le> roundHalfEven (x / 2 powi ulpExponent x)" by (rule roundHalfEven_ge)
  then show ?thesis by (simp add: nearest_def)
qed

lemma ilog2_zero: "ilog2 0 = 0"
  by code_simp

lemma overflow_iff:
  assumes "0 \<le> v"
  shows "(1024 \<le> ilog2 v) = (2 powi 1024 \<le> v)"
proof (cases "v = 0")
  case True
  then show ?thesis by (simp add: ilog2_zero)
next
  case False
  with assms have v: "0 < v" by simp
  show ?thesis
  proof
    assume "1024 \<le> ilog2 v"
    then have "(2::rat) powi 1024 \<le> 2 powi (ilog2 v)" by (intro power_int_increasing) simp_all
    with ilog2_bounds [OF v] show "2 powi 1024 \<le> v" by linarith
  next
    assume "2 powi 1024 \<le> v"
    then show "1024 \<le> ilog2 v" by (rule ilog2_ge)
  qed
qed

lemma round_pos_alt:
  "0 < q \<Longrightarrow> round_pos q = (if 2 powi 1024 \<le> nearest q then PosInf else Fin (nearest q))"
  using overflow_iff [OF nearest_nonneg [of q]] by (simp add: round_pos_def)

lemma round_pos_nonneg: "0 < x \<Longrightarrow> nonnegative (round_pos x)"
  using nearest_nonneg [of x] by (simp add: round_pos_alt nonnegative_def)

lemma round_pos_mono:
  assumes "0 < x" "x \<le> y"
  shows "js_le (round_pos x) (round_pos y)"
proof -
  have "0 < y" using assms by linarith
  then show ?thesis
    using nearest_mono [OF assms] assms(1) by (simp add: round_pos_alt js_le_def)
qed

lemma nearest_of_int:
  assumes "0 < n" "n < 2 ^ 53"
  shows "nearest (of_int n) = of_int n"
proof -
  define e where "e = ilog2 (of_int n)"
  have n0: "(0::rat) < of_int n" using assms by simp
  have "(2::rat) powi 0 \<le> of_int n" using assms by simp
  then have e0: "0 \<le> e" unfolding e_def by (rule ilog2_ge)
  have "(of_int n :: rat) < of_int (2 ^ 53)" using assms(2) by (simp only: of_int_less_iff)
  then have "(of_int n :: rat) < 2 powi 53" by simp
  then have "e < 53" unfolding e_def using n0 by (intro ilog2_less)
  then obtain k :: nat where k: "52 - e = int k" using nonneg_int_cases [of "52 - e"] by auto
  have m: "ulpExponent (of_int n) = - int k"
    using e0 k by (simp add: ulpExponent_def e_def [symmetric])
  have pk: "(2::rat) powi (- int k) = 1 / 2 ^ k"
    by (simp add: power_int_minus inverse_eq_divide)
  have "(of_int n :: rat) / 2 powi (- int k) = of_int (n * 2 ^ k)" by (simp add: pk)
  then have r: "roundHalfEven (of_int n / 2 powi (- int k)) = n * 2 ^ k"
    by (simp only: roundHalfEven_of_int)
  have v: "(of_int (n * 2 ^ k) :: rat) * 2 powi (- int k) = of_int n" by (simp add: pk)
  show ?thesis unfolding nearest_def m r v ..
qed

lemma round_pos_of_int:
  assumes "0 < n" "n < 2 ^ 53"
  shows "round_pos (of_int n) = Fin (of_int n)"
proof -
  have "(of_int n :: rat) < of_int (2 ^ 53)" using assms(2) by (simp only: of_int_less_iff)
  moreover have "(of_int (2 ^ 53) :: rat) \<le> 2 powi 1024" by simp
  ultimately have "\<not> (2::rat) powi 1024 \<le> of_int n" by linarith
  moreover have "(0::rat) < of_int n" using assms(1) by simp
  ultimately show ?thesis by (simp only: round_pos_alt nearest_of_int [OF assms] if_False)
qed

lemma double_of_int:
  assumes "\<bar>n\<bar> < 2 ^ 53"
  shows "double (of_int n) = Fin (of_int n)"
proof -
  consider "n = 0" | "0 < n" | "n < 0" by linarith
  then show ?thesis
  proof cases
    case 1
    then show ?thesis by (simp add: double_def)
  next
    case 2
    then show ?thesis using assms round_pos_of_int [of n] by (simp add: double_def)
  next
    case 3
    then have "round_pos (of_int (- n)) = Fin (of_int (- n))"
      using assms by (intro round_pos_of_int) simp_all
    then show ?thesis using 3 by (simp add: double_def)
  qed
qed

lemma double_nonneg: "0 \<le> x \<Longrightarrow> nonnegative (double x)"
  using round_pos_nonneg [of x] by (auto simp: double_def nonnegative_def)

lemma double_mono:
  assumes "0 \<le> x" "x \<le> y"
  shows "js_le (double x) (double y)"
proof (cases "x = 0")
  case True
  then show ?thesis using double_nonneg [of y] assms
    by (auto simp: double_def nonnegative_def js_le_def split: jsnum.splits)
next
  case False
  then have "0 < x" "0 < y" using assms by simp_all
  then show ?thesis using round_pos_mono [OF _ assms(2)] by (simp add: double_def)
qed

lemma nearest_error:
  assumes "2 powi (- 1022) \<le> y"
  shows "\<bar>nearest y - y\<bar> \<le> y / 2 ^ 53"
proof -
  define p where "p = ilog2 y - 52"
  have y: "0 < y" using assms pow2_pos [of "- 1022"] by linarith
  have "- 1022 \<le> ilog2 y" using assms by (rule ilog2_ge)
  then have m: "ulpExponent y = p" by (simp add: p_def ulpExponent_def)
  define k where "k = roundHalfEven (y / 2 powi p)"
  have pp: "(0::rat) < 2 powi p" by simp
  have "\<bar>of_int k - y / 2 powi p\<bar> * 2 powi p \<le> 1 / 2 * 2 powi p"
    unfolding k_def using roundHalfEven_error [of "y / 2 powi p"]
    by (rule mult_right_mono) simp
  moreover have "\<bar>of_int k - y / 2 powi p\<bar> * 2 powi p = \<bar>of_int k * 2 powi p - y\<bar>"
  proof -
    have "\<bar>of_int k - y / 2 powi p\<bar> * 2 powi p = \<bar>(of_int k - y / 2 powi p) * 2 powi p\<bar>"
      using pp by (simp add: abs_mult)
    also have "(of_int k - y / 2 powi p) * 2 powi p = of_int k * 2 powi p - y"
      using pp by (simp add: algebra_simps)
    finally show ?thesis .
  qed
  moreover have "1 / 2 * (2::rat) powi p \<le> y / 2 ^ 53"
  proof -
    have "(2::rat) powi (ilog2 y) = of_int (2 ^ 52) * 2 powi p"
      unfolding p_def by (rule pow2_52)
    moreover have "2 powi (ilog2 y) \<le> y" using ilog2_bounds [OF y] by simp
    ultimately show ?thesis by simp
  qed
  ultimately have "\<bar>of_int k * 2 powi p - y\<bar> \<le> y / 2 ^ 53" by linarith
  then show ?thesis unfolding nearest_def m k_def .
qed

section \<open>Numbers that are integers\<close>

lemma trunc_of_int [simp]: "trunc (of_int n) = n"
  by (simp add: trunc_def)

lemma js_rem_int:
  assumes "0 \<le> a" "0 < b"
  shows "js_rem (Fin (of_int a)) (Fin (of_int b)) = Fin (of_int (a mod b))"
proof -
  have "(of_int a :: rat) / of_int b \<ge> 0" using assms by simp
  then have "trunc (of_int a / of_int b) = a div b"
    by (simp add: trunc_def floor_divide_of_int_eq)
  moreover have "a - b * (a div b) = a mod b"
    by (simp add: minus_mult_div_eq_mod)
  ultimately show ?thesis using assms
    by simp (metis of_int_diff of_int_mult)
qed

lemma js_add_int:
  "\<bar>a + b\<bar> < 2 ^ 53 \<Longrightarrow> js_add (Fin (of_int a)) (Fin (of_int b)) = Fin (of_int (a + b))"
  using double_of_int [of "a + b"] by simp

lemma js_sub_int:
  "\<bar>a - b\<bar> < 2 ^ 53 \<Longrightarrow> js_sub (Fin (of_int a)) (Fin (of_int b)) = Fin (of_int (a - b))"
  using double_of_int [of "a - b"] by (simp add: js_sub_def)

section \<open>Reading back what \<open>formatDate\<close> prints\<close>

lemma digit_small:
  assumes "0 \<le> k" "k < 10"
  shows "isDigit (digit k)" and "digitVal (digit k) = k"
proof -
  from assms have "k = 0 \<or> k = 1 \<or> k = 2 \<or> k = 3 \<or> k = 4 \<or> k = 5 \<or> k = 6 \<or> k = 7 \<or>
      k = 8 \<or> k = 9" by arith
  then show "isDigit (digit k)" and "digitVal (digit k) = k"
    by (auto simp: digit_def isDigit_def digitVal_def)
qed

lemma pad_length [simp]: "length (pad w n) = w"
  by (induction w arbitrary: n) simp_all

lemma pad_digits: "list_all isDigit (pad w n)"
  by (induction w arbitrary: n) (simp_all add: digit_small)

lemma decimal_snoc: "decimal (xs @ [c]) = 10 * decimal xs + digitVal c"
  by (simp add: decimal_def)

lemma decimal_pad: "0 \<le> n \<Longrightarrow> n < 10 ^ w \<Longrightarrow> decimal (pad w n) = n"
proof (induction w arbitrary: n)
  case 0
  then show ?case by (simp add: decimal_def)
next
  case (Suc w)
  have "0 \<le> n div 10" "n div 10 < 10 ^ w"
    using Suc.prems div_bounds [of 10 n] by simp_all
  then have "decimal (pad w (n div 10)) = n div 10" by (rule Suc.IH)
  then show ?case by (simp add: decimal_snoc digit_small)
qed

lemma fixedNumber_pad:
  "0 \<le> n \<Longrightarrow> n < 10 ^ w \<Longrightarrow> fixedNumber w (pad w n @ r) = Some (n, r)"
  by (simp add: fixedNumber_def pad_digits decimal_pad)


lemma pad_Cons: "\<exists>c cs. pad (Suc w) n = c # cs \<and> isDigit c"
proof (induction w arbitrary: n)
  case 0
  then show ?case by (simp add: digit_small)
next
  case (Suc w)
  from Suc [of "n div 10"] obtain c cs where "pad (Suc w) (n div 10) = c # cs" "isDigit c"
    by blast
  then show ?case by simp
qed

lemma isDigit_not_sign: "isDigit c \<Longrightarrow> c \<noteq> CHR ''+'' \<and> c \<noteq> CHR ''-''"
  by (auto simp: isDigit_def)

lemma parseYear_pad:
  assumes "0 \<le> y" "y \<le> 9999"
  shows "parseYear (pad 4 y @ r) = Some (y, r)"
proof -
  obtain c cs where p: "pad 4 y = c # cs" "isDigit c"
    using pad_Cons [of 3 y] by (auto simp: numeral_eq_Suc)
  have "fixedNumber 4 (pad 4 y @ r) = Some (y, r)"
    using assms by (intro fixedNumber_pad) simp_all
  then show ?thesis
    using p isDigit_not_sign [OF p(2)] by (simp add: parseYear_def)
qed

lemma parseField_pad:
  assumes "lo \<le> v" "v \<le> hi" "0 \<le> v" "v < 100"
  shows "parseField lo hi (CHR ''-'' # pad 2 v @ r) = Some (Some v, r)"
proof -
  have "fixedNumber 2 (pad 2 v @ r) = Some (v, r)"
    using assms by (intro fixedNumber_pad) simp_all
  then show ?thesis using assms by (simp add: parseField_def)
qed

lemma parseTime_midnight: "parseTime ''T00:00:00'' = Some 0"
  by code_simp

text \<open>The day string of a date in the years 0 to 9999 is read back as the local midnight of
  that UTC calendar day.\<close>

lemma formatDate_read_back:
  assumes "0 \<le> YearFromTime t" "YearFromTime t \<le> 9999"
  shows "\<exists>s. formatDate (Some t) = Inr s \<and> length s = 10 \<and>
           newDateFromString z (s @ ''T00:00:00'') = TimeClip (UTC z (Day t * msPerDay))"
proof -
  let ?y = "YearFromTime t" and ?m = "MonthFromTime t" and ?d = "DateFromTime t"
  let ?s = "pad 4 ?y @ CHR ''-'' # pad 2 (?m + 1) @ CHR ''-'' # pad 2 ?d"
  have f: "formatDate (Some t) = Inr ?s"
    using assms by (simp add: formatDate_def toISOString_def isoString_def isoYear_def slice_def)
  have m: "1 \<le> ?m + 1" "?m + 1 \<le> 12" using MonthFromTime_range [of t] by simp_all
  have d: "1 \<le> ?d" "?d \<le> 31" using DateFromTime_range [of t] by simp_all
  have y: "parseYear (pad 4 ?y @ CHR ''-'' # pad 2 (?m + 1) @ CHR ''-'' # pad 2 ?d @ ''T00:00:00'') =
      Some (?y, CHR ''-'' # pad 2 (?m + 1) @ CHR ''-'' # pad 2 ?d @ ''T00:00:00'')"
    by (rule parseYear_pad [OF assms])
  have mo: "parseField 1 12 (CHR ''-'' # pad 2 (?m + 1) @ CHR ''-'' # pad 2 ?d @ ''T00:00:00'') =
      Some (Some (?m + 1), CHR ''-'' # pad 2 ?d @ ''T00:00:00'')"
    using m by (intro parseField_pad) simp_all
  have dy: "parseField 1 31 (CHR ''-'' # pad 2 ?d @ ''T00:00:00'') = Some (Some ?d, ''T00:00:00'')"
    using d by (intro parseField_pad) simp_all
  have "MakeDay ?y ?m ?d = Day t" using MakeDay_own [of t 0] by simp
  then have "parseDateTime (?s @ ''T00:00:00'') = Some (Day t * msPerDay)"
    by (simp add: parseDateTime_def y mo dy parseTime_midnight MakeDate_def)
  then have "newDateFromString z (?s @ ''T00:00:00'') = TimeClip (UTC z (Day t * msPerDay))"
    by (simp add: newDateFromString_def)
  with f show ?thesis by simp
qed

section \<open>The week of a reference date\<close>

lemma TimeClip_inRange: "inRange t \<Longrightarrow> TimeClip t = Some t"
  by (simp add: TimeClip_def inRange_def)

lemma TimeClip_Some: "TimeClip t = Some u \<Longrightarrow> u = t \<and> inRange t"
  by (simp add: TimeClip_def inRange_def split: if_splits)

lemma setDate_shift:
  "setDate z (Some t) (Fin (of_int (DateFromTime (LocalTime z t) + k))) =
     TimeClip (UTC z (LocalTime z t + k * msPerDay))"
proof -
  have "MakeDate (Day (LocalTime z t) + k) (TimeWithinDay (LocalTime z t)) =
          LocalTime z t + k * msPerDay"
    using Day_TimeWithinDay [of "LocalTime z t"] by (simp add: MakeDate_def algebra_simps)
  then show ?thesis
    by (simp add: setDate_def MakeDay_own Let_def del: of_int_add)
qed

lemma setHours_day:
  "setHours z (Some u) h m s ms =
     TimeClip (UTC z (Day (LocalTime z u) * msPerDay + MakeTime h m s ms))"
  by (simp add: setHours_def Let_def MakeDate_def)

lemma setHours_None: "setHours z None h m s ms = None"
  by (simp add: setHours_def)

text \<open>The number of days since Monday, as \<open>startOfWeek\<close> computes it.\<close>

lemma days_since_Monday:
  "js_rem (js_add (getDay z (Some t)) (Fin 6)) (Fin 7) =
     Fin (of_int ((WeekDay (LocalTime z t) + 6) mod 7))"
proof -
  let ?w = "WeekDay (LocalTime z t)"
  have w: "0 \<le> ?w" "?w \<le> 6" using WeekDay_range [of "LocalTime z t"] by simp_all
  then have "\<bar>?w + 6\<bar> < 2 ^ 53" by simp
  then have "js_add (Fin (of_int ?w)) (Fin (of_int 6)) = Fin (of_int (?w + 6))"
    by (rule js_add_int)
  then have "js_add (getDay z (Some t)) (Fin 6) = Fin (of_int (?w + 6))"
    by (simp add: getDay_def)
  moreover have "js_rem (Fin (of_int (?w + 6))) (Fin (of_int 7)) = Fin (of_int ((?w + 6) mod 7))"
    using w by (intro js_rem_int) simp_all
  ultimately show ?thesis by simp
qed

lemma Monday_local:
  "LocalTime z t - (WeekDay (LocalTime z t) + 6) mod 7 * msPerDay =
     mondayOf z t + TimeWithinDay (LocalTime z t)"
  using Day_TimeWithinDay [of "LocalTime z t"]
  by (simp add: mondayOf_def MakeDate_def algebra_simps)

text \<open>
  \<open>startOfWeek\<close> in two steps: \<open>setDate\<close> moves the local time back to Monday and converts
  it to an instant; \<open>setHours\<close> takes the local day of that instant, at midnight, and
  converts again.  Either conversion gives an Invalid Date when it leaves the range.
\<close>

lemma startOfWeek_steps:
  "startOfWeek z (Some t) =
     (case TimeClip (UTC z (mondayOf z t + TimeWithinDay (LocalTime z t))) of
        None \<Rightarrow> None
      | Some u \<Rightarrow> TimeClip (UTC z (Day (LocalTime z u) * msPerDay)))"
proof -
  let ?t' = "LocalTime z t"
  let ?k = "(WeekDay ?t' + 6) mod 7"
  have k: "0 \<le> ?k" "?k \<le> 6" by simp_all
  have d: "1 \<le> DateFromTime ?t'" "DateFromTime ?t' \<le> 31"
    using DateFromTime_range [of ?t'] by simp_all
  have "\<bar>DateFromTime ?t' - ?k\<bar> < 2 ^ 53" using k d by simp
  then have "js_sub (Fin (of_int (DateFromTime ?t'))) (Fin (of_int ?k)) =
      Fin (of_int (DateFromTime ?t' - ?k))"
    by (rule js_sub_int)
  then have "js_sub (getDate z (Some t)) (Fin (of_int ?k)) =
      Fin (of_int (DateFromTime ?t' + (- ?k)))"
    by (simp add: getDate_def)
  then have sd: "setDate z (Some t) (js_sub (getDate z (Some t)) (Fin (of_int ?k))) =
      TimeClip (UTC z (mondayOf z t + TimeWithinDay ?t'))"
    using setDate_shift [of z t "- ?k"] Monday_local [of z t] by simp
  have sh: "setHours z d 0 0 0 0 =
      (case d of None \<Rightarrow> None | Some u \<Rightarrow> TimeClip (UTC z (Day (LocalTime z u) * msPerDay)))" for d
    by (cases d) (simp_all add: setHours_None setHours_day MakeTime_def)
  show ?thesis
    unfolding startOfWeek_def Let_def days_since_Monday sd sh ..
qed

lemma startOfWeek_None: "startOfWeek z None = None"
  by (simp add: startOfWeek_def setDate_def setHours_def Let_def)

lemma endOfWeek_None: "startOfWeek z d = None \<Longrightarrow> endOfWeek z d = None"
  by (simp add: endOfWeek_def setDate_def setHours_def Let_def)

lemma Monday_arith: "(d - ((d + 4) mod 7 + 6) mod 7 + 4) mod 7 = (1::int)"
  by presburger

lemma Sunday_arith: "(d - ((d + 4) mod 7 + 6) mod 7 + 6 + 4) mod 7 = (0::int)"
  by presburger

lemma TimeWithinDay_range: "0 \<le> TimeWithinDay t \<and> TimeWithinDay t < msPerDay"
  using msPerDay_pos by (simp add: TimeWithinDay_def)

lemma endTime_range: "0 \<le> MakeTime 23 59 59 999 \<and> MakeTime 23 59 59 999 < msPerDay"
  by (simp add: MakeTime_def msPerDay_def)

lemma mondayOf_Day:
  "Day (mondayOf z t) = Day (LocalTime z t) - (WeekDay (LocalTime z t) + 6) mod 7"
  unfolding mondayOf_def by (rule Day_mult)

lemma mondayOf_Monday: "WeekDay (mondayOf z t) = 1"
  by (simp only: WeekDay_def mondayOf_def Day_mult Monday_arith)

lemma mondayOf_midnight: "TimeWithinDay (mondayOf z t) = 0"
  unfolding mondayOf_def by (rule TimeWithinDay_mult)

lemma mondayOf_same_day: "Day (mondayOf z t + TimeWithinDay (LocalTime z t)) = Day (mondayOf z t)"
  unfolding mondayOf_def using TimeWithinDay_range [of "LocalTime z t"]
  by (simp add: Day_offset Day_mult)

lemma mondayOf_whole: "Day (mondayOf z t) * msPerDay = mondayOf z t"
  unfolding mondayOf_Day by (simp add: mondayOf_def)

lemma sunday_split:
  "mondayOf z t + 6 * msPerDay + r = (Day (mondayOf z t) + 6) * msPerDay + r"
  unfolding mondayOf_Day by (simp add: mondayOf_def algebra_simps)

lemma sunday_Day:
  "0 \<le> r \<Longrightarrow> r < msPerDay \<Longrightarrow> Day (mondayOf z t + 6 * msPerDay + r) = Day (mondayOf z t) + 6"
  unfolding sunday_split by (rule Day_offset)

lemma sunday_time:
  "0 \<le> r \<Longrightarrow> r < msPerDay \<Longrightarrow> TimeWithinDay (mondayOf z t + 6 * msPerDay + r) = r"
  unfolding sunday_split by (rule TimeWithinDay_offset)

lemma sunday_Sunday:
  assumes "0 \<le> r" "r < msPerDay"
  shows "WeekDay (mondayOf z t + 6 * msPerDay + r) = 0"
proof -
  have "Day (mondayOf z t + 6 * msPerDay + r) =
      Day (LocalTime z t) - (WeekDay (LocalTime z t) + 6) mod 7 + 6"
    using sunday_Day [OF assms] by (simp add: mondayOf_Day)
  then show ?thesis by (simp only: WeekDay_def Sunday_arith)
qed

lemma week_contains:
  "Day (mondayOf z t) \<le> Day (LocalTime z t) \<and> Day (LocalTime z t) \<le> Day (mondayOf z t) + 6"
  unfolding mondayOf_Day by simp

text \<open>On a regular week \<open>startOfWeek\<close> returns the instant of the Monday at local midnight.\<close>

lemma startOfWeek_regular:
  assumes "regularWeek z t"
  shows "startOfWeek z (Some t) = Some (UTC z (mondayOf z t))"
    and "LocalTime z (UTC z (mondayOf z t)) = mondayOf z t"
proof -
  let ?x = "mondayOf z t + TimeWithinDay (LocalTime z t)"
  from assms have a: "inRange (UTC z ?x)" "Day (LocalTime z (UTC z ?x)) = Day ?x"
    and b: "inRange (UTC z (mondayOf z t))" "LocalTime z (UTC z (mondayOf z t)) = mondayOf z t"
    by (simp_all add: regularWeek_def keepsDay_def readsBack_def)
  have "Day (LocalTime z (UTC z ?x)) * msPerDay = mondayOf z t"
    unfolding a(2) mondayOf_same_day by (rule mondayOf_whole)
  then show "startOfWeek z (Some t) = Some (UTC z (mondayOf z t))"
    unfolding startOfWeek_steps using a(1) b(1) by (simp add: TimeClip_inRange)
  show "LocalTime z (UTC z (mondayOf z t)) = mondayOf z t" by (rule b(2))
qed

text \<open>\<open>endOfWeek\<close> then returns the instant of the Sunday six days later at 23:59:59.999.\<close>

lemma endOfWeek_regular:
  assumes "regularWeek z t"
  shows "endOfWeek z (Some t) = Some (UTC z (mondayOf z t + 6 * msPerDay + MakeTime 23 59 59 999))"
    and "LocalTime z (UTC z (mondayOf z t + 6 * msPerDay + MakeTime 23 59 59 999)) =
           mondayOf z t + 6 * msPerDay + MakeTime 23 59 59 999"
proof -
  let ?m = "mondayOf z t"
  let ?s = "UTC z ?m"
  let ?x = "?m + 6 * msPerDay"
  let ?y = "?m + 6 * msPerDay + MakeTime 23 59 59 999"
  from assms have a: "inRange (UTC z ?x)" "Day (LocalTime z (UTC z ?x)) = Day ?x"
    and b: "inRange (UTC z ?y)" "LocalTime z (UTC z ?y) = ?y"
    by (simp_all add: regularWeek_def keepsDay_def readsBack_def)
  note s = startOfWeek_regular [OF assms]
  have d: "1 \<le> DateFromTime ?m" "DateFromTime ?m \<le> 31"
    using DateFromTime_range [of ?m] by simp_all
  then have "\<bar>DateFromTime ?m + 6\<bar> < 2 ^ 53" by simp
  then have "js_add (Fin (of_int (DateFromTime ?m))) (Fin (of_int 6)) =
      Fin (of_int (DateFromTime ?m + 6))"
    by (rule js_add_int)
  then have "js_add (getDate z (Some ?s)) (Fin 6) = Fin (of_int (DateFromTime (LocalTime z ?s) + 6))"
    by (simp add: getDate_def s(2))
  then have sd: "setDate z (Some ?s) (js_add (getDate z (Some ?s)) (Fin 6)) = Some (UTC z ?x)"
    using setDate_shift [of z ?s 6] a(1) by (simp add: s(2) TimeClip_inRange)
  have "Day ?x = Day ?m + 6" using sunday_Day [of 0 z t] msPerDay_pos by simp
  then have "Day (LocalTime z (UTC z ?x)) * msPerDay + MakeTime 23 59 59 999 = ?y"
    unfolding a(2) using mondayOf_whole [of z t] by (simp add: algebra_simps)
  then have sh: "setHours z (Some (UTC z ?x)) 23 59 59 999 = Some (UTC z ?y)"
    unfolding setHours_day using b(1) by (simp add: TimeClip_inRange)
  show "endOfWeek z (Some t) = Some (UTC z ?y)"
    unfolding endOfWeek_def Let_def s(1) sd sh ..
  show "LocalTime z (UTC z ?y) = ?y" by (rule b(2))
qed

lemma inWeek_Some:
  "inWeek z (Some s) (Some e) d =
     (case newDateFromString z (d @ ''T00:00:00'') of
        None \<Rightarrow> False
      | Some m \<Rightarrow> s \<le> m \<and> m \<le> e)"
  by (auto simp: inWeek_def Let_def js_ge_def js_le_def valueOf_def split: option.splits)

lemma inWeek_None: "inWeek z None e d = False"
  by (simp add: inWeek_def Let_def js_ge_def valueOf_def split: option.splits)

lemma getThisWeekCompletions_invalid:
  "startOfWeek z r = None \<Longrightarrow> getThisWeekCompletions z r h = []"
  by (simp add: getThisWeekCompletions_def Let_def inWeek_None)

text \<open>
  On a host whose offset from UTC never changes, every week that lies a week inside the range
  of time values is regular.
\<close>

lemma regularWeek_fixed:
  assumes "LocalTZA z = (\<lambda>t isUTC. off)" and "\<bar>t\<bar> + 7 * msPerDay \<le> 8640000000000000"
  shows "regularWeek z t"
proof -
  have rt: "UTC z x = x - off" "LocalTime z x = x + off" for x
    by (simp_all add: UTC_def LocalTime_def assms(1))
  let ?t' = "t + off"
  let ?k = "(WeekDay ?t' + 6) mod 7"
  have k: "0 \<le> ?k" "?k \<le> 6" by simp_all
  have m: "mondayOf z t = ?t' - TimeWithinDay ?t' - ?k * msPerDay"
    using Day_TimeWithinDay [of ?t'] by (simp add: mondayOf_def rt MakeDate_def algebra_simps)
  have r: "0 \<le> TimeWithinDay ?t'" "TimeWithinDay ?t' < msPerDay"
    using TimeWithinDay_range [of ?t'] by simp_all
  have km: "0 \<le> ?k * msPerDay" "?k * msPerDay \<le> 6 * msPerDay"
    using k msPerDay_pos by (simp_all only: mult_le_cancel_right) simp_all
  have e: "MakeTime 23 59 59 999 < msPerDay" "0 \<le> MakeTime 23 59 59 999"
    using endTime_range by simp_all
  have "inRange t" using assms(2) msPerDay_pos by (simp add: inRange_def)
  moreover have "inRange (mondayOf z t + TimeWithinDay ?t' - off)"
    "inRange (mondayOf z t - off)" "inRange (mondayOf z t + 6 * msPerDay - off)"
    "inRange (mondayOf z t + 6 * msPerDay + MakeTime 23 59 59 999 - off)"
    unfolding m inRange_def using assms(2) r km e by linarith+
  ultimately show ?thesis
    by (simp add: regularWeek_def keepsDay_def readsBack_def rt)
qed

text \<open>
  A week is not regular when the clocks go forward at the midnight that starts its Monday:
  that local time does not exist, and \<open>startOfWeek\<close> returns the instant the host takes it
  for, which is 01:00 local time.  So it was in Tehran in the week of 2021-03-22.
\<close>

lemma skipped_midnight:
  "isoString (LocalTime zoneTehran2021 march_24_noon) = ''2021-03-24T12:00:00.000Z'' \<and>
   \<not> regularWeek zoneTehran2021 march_24_noon \<and>
   startOfWeek zoneTehran2021 (Some march_24_noon) = Some 1616358600000 \<and>
   isoString (LocalTime zoneTehran2021 1616358600000) = ''2021-03-22T01:00:00.000Z'' \<and>
   WeekDay (LocalTime zoneTehran2021 1616358600000) = 1 \<and>
   TimeWithinDay (LocalTime zoneTehran2021 1616358600000) = 3600000"
  by code_simp

section \<open>The week window\<close>

text \<open>
  C1 (the claim as stated fails).  The first instant a Date can hold is a Tuesday; stepping
  back to the Monday before it leaves the range of time values, so \<open>startOfWeek\<close> and
  \<open>endOfWeek\<close> return an Invalid Date, not a Monday and a Sunday, and
  \<open>getThisWeekCompletions\<close> returns nothing for that reference date.
\<close>

theorem C1_counterexample:
  "inRange first_instant \<and> WeekDay (LocalTime zoneUTC first_instant) = 2 \<and>
   startOfWeek zoneUTC (Some first_instant) = None \<and>
   endOfWeek zoneUTC (Some first_instant) = None \<and>
   getThisWeekCompletions zoneUTC (Some first_instant) habit_Walk = []"
  by code_simp

text \<open>
  C1 (amended).  Let the reference date \<open>r\<close> be a valid Date with time value \<open>t\<close> whose week
  is regular on the host (the local times \<open>startOfWeek\<close> and \<open>endOfWeek\<close> pass through are
  converted without loss and stay in the range of time values).  Then \<open>startOfWeek\<close> returns
  an instant \<open>s\<close> and \<open>endOfWeek\<close> an instant \<open>e\<close> such that: \<open>s\<close> is a Monday at
  00:00:00.000 local time; \<open>e\<close> is a Sunday at 23:59:59.999 local time, six local days after
  \<open>s\<close>; the local day of \<open>r\<close> is one of the seven days from that Monday to that Sunday; and
  \<open>getThisWeekCompletions\<close> returns, in the order of \<open>completions\<close>, exactly the entries
  that \<open>new Date(entry + 'T00:00:00')\<close> reads as an instant in \<open>[s, e]\<close>, both ends included.
  An entry that \<open>markComplete\<close> recorded for an instant \<open>u\<close> in the years 0 to 9999 is read
  as the local midnight of the UTC calendar day of \<open>u\<close>.
\<close>

theorem C1_week_window:
  assumes "regularWeek z t"
  shows "\<exists>s e. startOfWeek z (Some t) = Some s \<and> endOfWeek z (Some t) = Some e \<and>
     WeekDay (LocalTime z s) = 1 \<and> TimeWithinDay (LocalTime z s) = 0 \<and>
     WeekDay (LocalTime z e) = 0 \<and> TimeWithinDay (LocalTime z e) = MakeTime 23 59 59 999 \<and>
     Day (LocalTime z e) = Day (LocalTime z s) + 6 \<and>
     Day (LocalTime z s) \<le> Day (LocalTime z t) \<and> Day (LocalTime z t) \<le> Day (LocalTime z e) \<and>
     getThisWeekCompletions z (Some t) h =
       filter (\<lambda>d. case newDateFromString z (d @ ''T00:00:00'') of
                      None \<Rightarrow> False
                    | Some m \<Rightarrow> s \<le> m \<and> m \<le> e)
         (completions h) \<and>
     (\<forall>u. 0 \<le> YearFromTime u \<and> YearFromTime u \<le> 9999 \<longrightarrow>
        (\<exists>d. formatDate (Some u) = Inr d \<and>
             newDateFromString z (d @ ''T00:00:00'') = TimeClip (UTC z (Day u * msPerDay))))"
proof -
  let ?m = "mondayOf z t"
  let ?y = "?m + 6 * msPerDay + MakeTime 23 59 59 999"
  let ?s = "UTC z ?m"
  let ?e = "UTC z ?y"
  note s = startOfWeek_regular [OF assms]
  note e = endOfWeek_regular [OF assms]
  note r = endTime_range
  have 1: "WeekDay (LocalTime z ?s) = 1" unfolding s(2) by (rule mondayOf_Monday)
  have 2: "TimeWithinDay (LocalTime z ?s) = 0" unfolding s(2) by (rule mondayOf_midnight)
  have 3: "WeekDay (LocalTime z ?e) = 0" unfolding e(2) using r by (intro sunday_Sunday) simp_all
  have 4: "TimeWithinDay (LocalTime z ?e) = MakeTime 23 59 59 999"
    unfolding e(2) using r by (intro sunday_time) simp_all
  have 5: "Day (LocalTime z ?e) = Day (LocalTime z ?s) + 6"
    unfolding e(2) s(2) using r by (intro sunday_Day) simp_all
  have 6: "Day (LocalTime z ?s) \<le> Day (LocalTime z t)" "Day (LocalTime z t) \<le> Day (LocalTime z ?e)"
    unfolding 5 unfolding s(2) using week_contains [of z t] by simp_all
  have "inWeek z (Some ?s) (Some ?e) =
      (\<lambda>d. case newDateFromString z (d @ ''T00:00:00'') of
               None \<Rightarrow> False
             | Some m \<Rightarrow> ?s \<le> m \<and> m \<le> ?e)"
    by (rule ext) (rule inWeek_Some)
  moreover have "getThisWeekCompletions z (Some t) h =
      filter (inWeek z (Some ?s) (Some ?e)) (completions h)"
    by (simp add: getThisWeekCompletions_def Let_def s(1) e(1))
  ultimately have 7: "getThisWeekCompletions z (Some t) h =
       filter (\<lambda>d. case newDateFromString z (d @ ''T00:00:00'') of
                      None \<Rightarrow> False
                    | Some m \<Rightarrow> ?s \<le> m \<and> m \<le> ?e)
         (completions h)"
    by simp
  have 8: "\<forall>u. 0 \<le> YearFromTime u \<and> YearFromTime u \<le> 9999 \<longrightarrow>
        (\<exists>d. formatDate (Some u) = Inr d \<and>
             newDateFromString z (d @ ''T00:00:00'') = TimeClip (UTC z (Day u * msPerDay)))"
    using formatDate_read_back [of _ z] by blast
  from s(1) e(1) 1 2 3 4 5 6 7 8 show ?thesis by blast
qed

theorem C1_week_window_witness:
  "regularWeek zoneNewYork2024 march_8_noon \<and>
   startOfWeek zoneNewYork2024 (Some march_8_noon) = Some 1709528400000 \<and>
   endOfWeek zoneNewYork2024 (Some march_8_noon) = Some 1710129599999 \<and>
   isoString (LocalTime zoneNewYork2024 1709528400000) = ''2024-03-04T00:00:00.000Z'' \<and>
   isoString (LocalTime zoneNewYork2024 1710129599999) = ''2024-03-10T23:59:59.999Z'' \<and>
   WeekDay (LocalTime zoneNewYork2024 1709528400000) = 1 \<and>
   WeekDay (LocalTime zoneNewYork2024 1710129599999) = 0 \<and>
   Day (LocalTime zoneNewYork2024 1710129599999) =
     Day (LocalTime zoneNewYork2024 1709528400000) + 6 \<and>
   getThisWeekCompletions zoneNewYork2024 (Some march_8_noon)
     (habit_Read\<lparr>completions := [''2024-03-11'', ''2024-03-10'', ''2024-03-03'', ''2024-03-04'']\<rparr>) =
     [''2024-03-10'', ''2024-03-04''] \<and>
   0 \<le> YearFromTime march_8_noon \<and> YearFromTime march_8_noon \<le> 9999 \<and>
   formatDate (Some march_8_noon) = Inr ''2024-03-08'' \<and>
   newDateFromString zoneNewYork2024 ''2024-03-08T00:00:00'' = Some 1709874000000"
proof -
  let ?h = "habit_Read\<lparr>completions := [''2024-03-11'', ''2024-03-10'', ''2024-03-03'', ''2024-03-04'']\<rparr>"
  have r: "regularWeek zoneNewYork2024 march_8_noon" by code_simp
  have sv: "startOfWeek zoneNewYork2024 (Some march_8_noon) = Some 1709528400000" by code_simp
  have ev: "endOfWeek zoneNewYork2024 (Some march_8_noon) = Some 1710129599999" by code_simp
  have i: "isoString (LocalTime zoneNewYork2024 1709528400000) = ''2024-03-04T00:00:00.000Z''"
    "isoString (LocalTime zoneNewYork2024 1710129599999) = ''2024-03-10T23:59:59.999Z''"
    by code_simp+
  have g: "getThisWeekCompletions zoneNewYork2024 (Some march_8_noon) ?h =
      [''2024-03-10'', ''2024-03-04'']" by code_simp
  have y: "0 \<le> YearFromTime march_8_noon" "YearFromTime march_8_noon \<le> 9999" by code_simp+
  have f: "formatDate (Some march_8_noon) = Inr ''2024-03-08''" by code_simp
  have c: "TimeClip (UTC zoneNewYork2024 (Day march_8_noon * msPerDay)) = Some 1709874000000"
    by code_simp
  from C1_week_window [OF r, of ?h] obtain s e where
    s: "startOfWeek zoneNewYork2024 (Some march_8_noon) = Some s" and
    e: "endOfWeek zoneNewYork2024 (Some march_8_noon) = Some e" and
    w: "WeekDay (LocalTime zoneNewYork2024 s) = 1" "WeekDay (LocalTime zoneNewYork2024 e) = 0"
      "Day (LocalTime zoneNewYork2024 e) = Day (LocalTime zoneNewYork2024 s) + 6" and
    b: "\<forall>u. 0 \<le> YearFromTime u \<and> YearFromTime u \<le> 9999 \<longrightarrow>
        (\<exists>d. formatDate (Some u) = Inr d \<and>
             newDateFromString zoneNewYork2024 (d @ ''T00:00:00'') =
               TimeClip (UTC zoneNewYork2024 (Day u * msPerDay)))"
    by (elim exE conjE) (rule that)
  from b y obtain d where "formatDate (Some march_8_noon) = Inr d"
    "newDateFromString zoneNewYork2024 (d @ ''T00:00:00'') =
       TimeClip (UTC zoneNewYork2024 (Day march_8_noon * msPerDay))"
    by blast
  with f c have n: "newDateFromString zoneNewYork2024 ''2024-03-08T00:00:00'' = Some 1709874000000"
    by simp
  from s e sv ev have "s = 1709528400000" "e = 1710129599999" by simp_all
  with w r sv ev i g y f n show ?thesis by simp
qed

section \<open>Same-day completion\<close>

text \<open>
  \<open>markComplete\<close> compares days by the string \<open>formatDate\<close> returns.  For two dates with the
  same string the first call appends it unless it is present, and the second call changes
  nothing.
\<close>

lemma markComplete_same_key:
  assumes "formatDate d1 = Inr day" and "formatDate d2 = Inr day"
  shows "(day \<notin> set (completions h) \<longrightarrow>
            markComplete d1 h = Inr (True, h\<lparr>completions := completions h @ [day]\<rparr>)) \<and>
         (day \<in> set (completions h) \<longrightarrow> markComplete d1 h = Inr (False, h)) \<and>
         (\<exists>b h1. markComplete d1 h = Inr (b, h1) \<and> markComplete d2 h1 = Inr (False, h1))"
  using assms by (auto simp: markComplete_def)

text \<open>
  C2.  The string is the date of \<open>toISOString\<close>, the calendar day in UTC, while the days of
  the user, the week boundaries and the dates read back from \<open>completions\<close> are in local
  time.  Two instants of one local calendar day that lie on either side of midnight UTC are
  recorded as two days: in Jakarta, 06:00 and 08:00 of Monday 2024-01-01 are 23:00 UTC of
  Sunday and 01:00 UTC of Monday, and \<open>markComplete\<close> appends for both and returns true
  twice.
\<close>

theorem C2_same_local_day_twice:
  "isoString (LocalTime zoneJakarta sunday_11pm) = ''2024-01-01T06:00:00.000Z'' \<and>
   isoString (LocalTime zoneJakarta monday_1am) = ''2024-01-01T08:00:00.000Z'' \<and>
   Day (LocalTime zoneJakarta sunday_11pm) = Day (LocalTime zoneJakarta monday_1am) \<and>
   getDate zoneJakarta (Some sunday_11pm) = getDate zoneJakarta (Some monday_1am) \<and>
   markComplete (Some sunday_11pm) habit_Read =
     Inr (True, habit_Read\<lparr>completions := [''2023-12-31'']\<rparr>) \<and>
   markComplete (Some monday_1am) (habit_Read\<lparr>completions := [''2023-12-31'']\<rparr>) =
     Inr (True, habit_Read\<lparr>completions := [''2023-12-31'', ''2024-01-01'']\<rparr>)"
  by code_simp

text \<open>
  The day recorded is read back as a local midnight.  East of Greenwich a completion marked
  early on a local Monday is recorded under Sunday's date and falls outside the week that
  starts on that Monday: here at 00:00 local time on Monday 2024-01-01 in Jakarta.
\<close>

lemma utc_day_outside_local_week:
  "markComplete (Some 1704042000000) habit_Read =
     Inr (True, habit_Read\<lparr>completions := [''2023-12-31'']\<rparr>) \<and>
   startOfWeek zoneJakarta (Some 1704042000000) = Some 1704042000000 \<and>
   getThisWeekCompletions zoneJakarta (Some 1704042000000)
     (habit_Read\<lparr>completions := [''2023-12-31'']\<rparr>) = []"
  by code_simp

section \<open>Weekly status and progress\<close>

lemma js_le_Fin: "js_le (Fin a) (Fin b) = (a \<le> b)"
  by (simp add: js_le_def not_less)

lemma nonnegative_cases:
  "nonnegative x \<Longrightarrow> x = PosInf \<or> (\<exists>v. x = Fin v \<and> 0 \<le> v)"
  by (cases x) (simp_all add: nonnegative_def)

lemma js_le_PosInf: "nonnegative x \<Longrightarrow> js_le x PosInf"
  by (cases x) (simp_all add: nonnegative_def js_le_def)

lemma times100_nonneg: "nonnegative a \<Longrightarrow> nonnegative (js_mul a (Fin 100))"
proof (cases a)
  case (Fin v)
  assume "nonnegative a"
  with Fin have "0 \<le> v * 100" by (simp add: nonnegative_def)
  then show ?thesis unfolding Fin js_mul.simps by (rule double_nonneg)
qed (simp_all add: nonnegative_def signed_inf_def)

lemma times100_mono:
  assumes "nonnegative a" "nonnegative b" "js_le a b"
  shows "js_le (js_mul a (Fin 100)) (js_mul b (Fin 100))"
proof (cases b)
  case PosInf
  have "js_mul b (Fin 100) = PosInf" by (simp add: PosInf signed_inf_def)
  then show ?thesis using js_le_PosInf [OF times100_nonneg [OF assms(1)]] by simp
next
  case (Fin w)
  from assms(1) nonnegative_cases obtain v where a: "a = Fin v" "0 \<le> v"
    using assms(3) Fin by (cases a) (auto simp: js_le_def nonnegative_def)
  have "v \<le> w" using assms(3) unfolding a Fin js_le_Fin .
  then have "v * 100 \<le> w * 100" by simp
  moreover have "0 \<le> v * 100" using a by simp
  ultimately show ?thesis unfolding a Fin js_mul.simps by (intro double_mono)
qed (use assms in \<open>simp_all add: nonnegative_def\<close>)

lemma cap_values:
  "Math_min PosInf (Fin 100) = Fin 100" "Math_min (Fin v) (Fin 100) = Fin (min v 100)"
  by (simp_all add: js_lt_def min_def)

lemma cap_range:
  assumes "nonnegative a"
  shows "\<exists>r. Math_min a (Fin 100) = Fin r \<and> 0 \<le> r \<and> r \<le> 100"
  using nonnegative_cases [OF assms] by (auto simp: js_lt_def)

lemma cap_mono:
  assumes "nonnegative a" "nonnegative b" "js_le a b"
  shows "js_le (Math_min a (Fin 100)) (Math_min b (Fin 100))"
  using nonnegative_cases [OF assms(1)] nonnegative_cases [OF assms(2)] assms(3)
  by (auto simp: js_lt_def js_le_def)

lemma cap_full: "nonnegative a \<Longrightarrow> js_le (Fin 100) a \<Longrightarrow> Math_min a (Fin 100) = Fin 100"
  using nonnegative_cases [of a] by (auto simp: js_lt_def js_le_def)

lemma ratio_nonneg: "0 < q \<Longrightarrow> nonnegative (js_div (Fin (of_nat n)) (Fin q))"
  using double_nonneg [of "of_nat n / q"] by simp

lemma ratio_mono:
  assumes "0 < q" "n \<le> n'"
  shows "js_le (js_div (Fin (of_nat n)) (Fin q)) (js_div (Fin (of_nat n')) (Fin q))"
proof -
  have "(of_nat n :: rat) / q \<le> of_nat n' / q" using assms by (simp add: divide_le_cancel)
  moreover have "0 \<le> (of_nat n :: rat) / q" using assms by simp
  ultimately have "js_le (double (of_nat n / q)) (double (of_nat n' / q))" by (intro double_mono)
  then show ?thesis using assms by simp
qed

lemma progress_positive:
  "0 < q \<Longrightarrow> progress n (Fin q) =
     Math_min (js_mul (js_div (Fin (of_nat n)) (Fin q)) (Fin 100)) (Fin 100)"
  by (simp add: progress_def js_le_def)

lemma progress_nonpositive: "q \<le> 0 \<Longrightarrow> progress n (Fin q) = Fin 0"
  by (simp add: progress_def js_le_def)

lemma progress_other:
  "progress n NaN = NaN" "progress n PosInf = Fin 0" "progress n NegInf = Fin 0"
  by (simp_all add: progress_def js_le_def js_lt_def double_def)

lemma progress_zero: "js_le tf (Fin 0) \<Longrightarrow> progress n tf = Fin 0"
  by (simp add: progress_def)

lemma progress_range_Fin: "\<exists>r. progress n (Fin q) = Fin r \<and> 0 \<le> r \<and> r \<le> 100"
proof (cases "0 < q")
  case True
  show ?thesis unfolding progress_positive [OF True]
    by (intro cap_range times100_nonneg ratio_nonneg True)
next
  case False
  then show ?thesis by (simp add: progress_nonpositive)
qed

lemma progress_mono_Fin:
  assumes "n \<le> n'"
  shows "js_le (progress n (Fin q)) (progress n' (Fin q))"
proof (cases "0 < q")
  case True
  show ?thesis unfolding progress_positive [OF True]
    by (intro cap_mono times100_mono times100_nonneg ratio_nonneg ratio_mono True assms)
next
  case False
  then show ?thesis by (simp add: progress_nonpositive js_le_Fin)
qed

lemma progress_full:
  assumes "0 < q" "q \<le> of_nat n"
  shows "progress n (Fin q) = Fin 100"
proof -
  have "(1::rat) \<le> of_nat n / q" using assms by simp
  then have "js_le (double 1) (double (of_nat n / q))" by (intro double_mono) simp_all
  moreover have "double 1 = Fin 1" using double_of_int [of 1] by simp
  ultimately have 1: "js_le (Fin 1) (js_div (Fin (of_nat n)) (Fin q))" using assms by simp
  have "js_le (js_mul (Fin 1) (Fin 100)) (js_mul (js_div (Fin (of_nat n)) (Fin q)) (Fin 100))"
    by (intro times100_mono ratio_nonneg assms 1) (simp add: nonnegative_def)
  moreover have "js_mul (Fin 1) (Fin 100) = Fin 100" using double_of_int [of 100] by simp
  ultimately have "js_le (Fin 100) (js_mul (js_div (Fin (of_nat n)) (Fin q)) (Fin 100))" by simp
  then show ?thesis unfolding progress_positive [OF assms(1)]
    by (intro cap_full times100_nonneg ratio_nonneg assms)
qed

lemma progress_none: "0 < q \<Longrightarrow> progress 0 (Fin q) = Fin 0"
  by (simp add: progress_positive double_def js_lt_def)

lemma rel_error_bounds:
  fixes v y :: rat
  assumes "\<bar>v - y\<bar> \<le> y / 2 ^ 53"
  shows "v \<le> y + y / 9007199254740992" "y - y / 9007199254740992 \<le> v"
proof -
  from assms have "v - y \<le> y / 2 ^ 53 \<and> - (v - y) \<le> y / 2 ^ 53" by (simp only: abs_le_iff)
  then show "v \<le> y + y / 9007199254740992" "y - y / 9007199254740992 \<le> v" by simp_all
qed

lemma far_above:
  fixes v y :: rat
  assumes "2 \<le> v" "\<bar>v - y\<bar> \<le> y / 2 ^ 53"
  shows "1 \<le> y"
proof -
  have "v \<le> y + y / 9007199254740992" using assms(2) by (rule rel_error_bounds)
  then show ?thesis using assms(1) by linarith
qed

lemma far_above_scaled:
  fixes v y :: rat
  assumes "20000 \<le> v" "\<bar>v - y\<bar> \<le> y / 2 ^ 53"
  shows "200 \<le> y"
proof -
  have "v \<le> y + y / 9007199254740992" using assms(2) by (rule rel_error_bounds)
  then show ?thesis using assms(1) by linarith
qed

lemma two_roundings:
  fixes y v1 v2 :: rat
  assumes "0 < y" "\<bar>v1 - y\<bar> \<le> y / 2 ^ 53" "\<bar>v2 - v1 * 100\<bar> \<le> v1 * 100 / 2 ^ 53"
  shows "\<bar>min v2 100 - min 100 (100 * y)\<bar> \<le> 100 * y / 2 ^ 51"
proof -
  note a = rel_error_bounds [OF assms(2)]
  note b = rel_error_bounds [OF assms(3)]
  have "v2 - 100 * y \<le> 100 * y / 2251799813685248" "100 * y - v2 \<le> 100 * y / 2251799813685248"
    using a b assms(1) by linarith+
  then have "\<bar>min v2 100 - min 100 (100 * y)\<bar> \<le> 100 * y / 2251799813685248"
    by (simp add: min_def abs_if)
  then show ?thesis by simp
qed

text \<open>The two roundings keep the result close to the exact quotient.\<close>

lemma progress_error:
  assumes "0 < q" "q \<le> 2 powi 1022"
  shows "\<exists>v. progress n (Fin q) = Fin v \<and>
           \<bar>v - min 100 (100 * of_nat n / q)\<bar> \<le> (100 * of_nat n / q) / 2 ^ 51"
proof (cases "n = 0")
  case True
  then show ?thesis using assms(1) by (simp add: progress_none)
next
  case False
  define y where "y = (of_nat n :: rat) / q"
  have "1 / 2 powi 1022 \<le> 1 / q" using assms by (intro divide_left_mono) simp_all
  moreover have "1 / q \<le> y" unfolding y_def using False assms(1) by (simp add: divide_le_cancel)
  moreover have "(2::rat) powi (- 1022) = 1 / 2 powi 1022"
    by (simp only: power_int_minus inverse_eq_divide)
  ultimately have y: "2 powi (- 1022) \<le> y" by simp
  have y0: "0 < y" using y pow2_pos [of "- 1022"] by linarith
  define v1 where "v1 = nearest y"
  have e1: "\<bar>v1 - y\<bar> \<le> y / 2 ^ 53" unfolding v1_def by (rule nearest_error [OF y])
  have d1: "js_div (Fin (of_nat n)) (Fin q) = (if 2 powi 1024 \<le> v1 then PosInf else Fin v1)"
    using assms(1) y0 by (simp add: double_def round_pos_alt y_def [symmetric] v1_def)
  have x: "100 * of_nat n / q = 100 * y" by (simp add: y_def)
  show ?thesis
  proof (cases "(2::rat) powi 1024 \<le> v1")
    case True
    then have "progress n (Fin q) = Fin 100"
      unfolding progress_positive [OF assms(1)] d1 by (simp add: signed_inf_def js_lt_def)
    moreover have "1 \<le> y"
    proof -
      have "2 \<le> v1" using True by simp
      then show ?thesis using e1 by (rule far_above)
    qed
    ultimately show ?thesis using y0 unfolding x by simp
  next
    case v1: False
    define y2 where "y2 = v1 * 100"
    have "y \<le> y2" using rel_error_bounds [OF e1] y0 unfolding y2_def by linarith
    then have y2: "2 powi (- 1022) \<le> y2" "0 < y2" using y y0 by simp_all
    define v2 where "v2 = nearest y2"
    have e2: "\<bar>v2 - y2\<bar> \<le> y2 / 2 ^ 53" unfolding v2_def by (rule nearest_error [OF y2(1)])
    have d2: "js_mul (js_div (Fin (of_nat n)) (Fin q)) (Fin 100) =
        (if 2 powi 1024 \<le> v2 then PosInf else Fin v2)"
      using v1 y2(2) unfolding d1
      by (simp add: double_def round_pos_alt y2_def [symmetric] v2_def)
    show ?thesis
    proof (cases "(2::rat) powi 1024 \<le> v2")
      case True
      then have "progress n (Fin q) = Fin 100"
        unfolding progress_positive [OF assms(1)] d2 by (simp add: js_lt_def min_def)
      moreover have "1 \<le> y"
      proof -
        have "20000 \<le> v2" using True by simp
        then have "200 \<le> v1 * 100" using e2 unfolding y2_def by (rule far_above_scaled)
        then have "2 \<le> v1" by simp
        then show ?thesis using e1 by (rule far_above)
      qed
      ultimately show ?thesis using y0 unfolding x by simp
    next
      case False
      then have "progress n (Fin q) = Fin (min v2 100)"
        unfolding progress_positive [OF assms(1)] d2 by (simp add: js_lt_def min_def)
      moreover have "\<bar>min v2 100 - min 100 (100 * y)\<bar> \<le> 100 * y / 2 ^ 51"
        using y0 e1 e2 unfolding y2_def by (rule two_roundings)
      ultimately show ?thesis unfolding x by simp
    qed
  qed
qed

lemma getProgressPercentage_progress:
  "getProgressPercentage z r h =
     progress (length (getThisWeekCompletions z r h)) (targetFrequency h)"
  by (simp add: getProgressPercentage_def progress_def Let_def)

lemma progress_cap: "\<not> js_lt (Fin 100) (progress n tf)"
proof (cases tf)
  case (Fin q)
  from progress_range_Fin [of n q] show ?thesis unfolding Fin by (auto simp: js_lt_def)
qed (simp_all add: progress_other js_lt_def)

lemma progress_range:
  assumes "tf \<noteq> NaN"
  shows "js_le (Fin 0) (progress n tf) \<and> js_le (progress n tf) (Fin 100)"
proof (cases tf)
  case (Fin q)
  from progress_range_Fin [of n q] show ?thesis unfolding Fin by (auto simp: js_le_Fin)
qed (use assms in \<open>simp_all add: progress_other js_le_def\<close>)

lemma progress_mono_le:
  assumes "n \<le> n'" "tf \<noteq> NaN"
  shows "js_le (progress n tf) (progress n' tf)"
proof (cases tf)
  case (Fin q)
  show ?thesis unfolding Fin by (rule progress_mono_Fin [OF assms(1)])
qed (use assms in \<open>simp_all add: progress_other js_le_def\<close>)

lemma progress_mono_not_lt:
  assumes "n \<le> n'"
  shows "\<not> js_lt (progress n' tf) (progress n tf)"
proof (cases "tf = NaN")
  case True
  then show ?thesis by (simp add: progress_other js_lt_def)
next
  case False
  from progress_mono_le [OF assms False] show ?thesis
    by (cases "progress n tf"; cases "progress n' tf") (auto simp: js_le_def js_lt_def)
qed

lemma completed_when_nonpositive:
  "js_le (targetFrequency h) (Fin 0) \<Longrightarrow> isCompletedThisWeek z r h"
  by (cases "targetFrequency h") (auto simp: isCompletedThisWeek_def js_le_def js_ge_def)

text \<open>
  C3.  \<open>isCompletedThisWeek\<close> is true exactly when the number of this-week completions is at
  least \<open>targetFrequency\<close>: for a finite target \<open>q\<close> when \<open>q \<le> count\<close>, never for a target of
  NaN or plus infinity (no count is at least that), always for minus infinity.  With the
  target 0 it is true whatever the completions are.
\<close>

theorem C3_completed_iff:
  "isCompletedThisWeek z r h =
     (case targetFrequency h of
        NaN \<Rightarrow> False
      | Fin q \<Rightarrow> q \<le> of_nat (length (getThisWeekCompletions z r h))
      | PosInf \<Rightarrow> False
      | NegInf \<Rightarrow> True) \<and>
   isCompletedThisWeek z r (h\<lparr>targetFrequency := Fin 0\<rparr>)"
  by (auto simp: isCompletedThisWeek_def js_ge_def split: jsnum.splits)

text \<open>
  C4 (the claim as stated fails).  With 7 completions in the week and the target 25 the
  method returns \<open>28 + 2^-48\<close> (printed 28.000000000000004), not \<open>min(100, 100 * 7 / 25) = 28\<close>:
  it divides first, and the quotient 7/25 is not a double.  The formula of the claim gives 28
  also when it is evaluated in doubles, as \<open>100 * 7\<close> and \<open>700 / 25\<close> are exact.
\<close>

theorem C4_counterexample:
  "targetFrequency habit_Walk = Fin 25 \<and>
   length (getThisWeekCompletions zoneUTC (Some monday_1am) habit_Walk) = 7 \<and>
   getProgressPercentage zoneUTC (Some monday_1am) habit_Walk = Fin (28 + 1 / 2 ^ 48) \<and>
   min 100 (100 * 7 / 25) = (28::rat) \<and>
   Math_min (Fin 100) (js_div (js_mul (Fin 100) (Fin 7)) (Fin 25)) = Fin 28 \<and>
   getProgressPercentage zoneUTC (Some monday_1am) habit_Walk \<noteq> Fin 28"
  by code_simp

text \<open>
  C4 (amended).  With \<open>n\<close> the number of this-week completions: when \<open>targetFrequency \<le> 0\<close>
  the percentage is 0, while \<open>isCompletedThisWeek\<close> is true.  For a finite positive target
  \<open>q\<close> it is \<open>Math.min((n / q) * 100, 100)\<close> in double arithmetic, the quotient and the
  product each rounded to the nearest double: a number between 0 and 100 that is exactly 100
  when \<open>n \<ge> q\<close>, exactly 0 when \<open>n = 0\<close>, and (for \<open>q\<close> up to \<open>2^1022\<close>) differs from
  \<open>min(100, 100 * n / q)\<close> by at most \<open>2^-51\<close> times \<open>100 * n / q\<close>.  The result never
  exceeds 100 and, for a target that is a number, lies between 0 and 100.  For two habits
  with the same target, the one with at least as many this-week completions has a percentage
  that is not smaller.
\<close>

theorem C4_progress_percentage:
  "(js_le (targetFrequency h) (Fin 0) \<longrightarrow>
      getProgressPercentage z r h = Fin 0 \<and> isCompletedThisWeek z r h) \<and>
   (\<forall>q. targetFrequency h = Fin q \<and> 0 < q \<longrightarrow>
      getProgressPercentage z r h =
        Math_min (js_mul (double (of_nat (length (getThisWeekCompletions z r h)) / q)) (Fin 100))
          (Fin 100) \<and>
      (q \<le> of_nat (length (getThisWeekCompletions z r h)) \<longrightarrow>
         getProgressPercentage z r h = Fin 100) \<and>
      (length (getThisWeekCompletions z r h) = 0 \<longrightarrow> getProgressPercentage z r h = Fin 0) \<and>
      (q \<le> 2 powi 1022 \<longrightarrow>
         (\<exists>v. getProgressPercentage z r h = Fin v \<and>
              \<bar>v - min 100 (100 * of_nat (length (getThisWeekCompletions z r h)) / q)\<bar> \<le>
                (100 * of_nat (length (getThisWeekCompletions z r h)) / q) / 2 ^ 51))) \<and>
   \<not> js_lt (Fin 100) (getProgressPercentage z r h) \<and>
   (targetFrequency h \<noteq> NaN \<longrightarrow>
      js_le (Fin 0) (getProgressPercentage z r h) \<and>
      js_le (getProgressPercentage z r h) (Fin 100)) \<and>
   (targetFrequency h' = targetFrequency h \<and>
    length (getThisWeekCompletions z r h) \<le> length (getThisWeekCompletions z r' h') \<longrightarrow>
      \<not> js_lt (getProgressPercentage z r' h') (getProgressPercentage z r h) \<and>
      (targetFrequency h \<noteq> NaN \<longrightarrow>
         js_le (getProgressPercentage z r h) (getProgressPercentage z r' h')))"
proof -
  let ?n = "length (getThisWeekCompletions z r h)"
  let ?n' = "length (getThisWeekCompletions z r' h')"
  let ?tf = "targetFrequency h"
  have 1: "js_le ?tf (Fin 0) \<longrightarrow> progress ?n ?tf = Fin 0 \<and> isCompletedThisWeek z r h"
    using progress_zero completed_when_nonpositive by blast
  have 2: "\<forall>q. ?tf = Fin q \<and> 0 < q \<longrightarrow>
      progress ?n ?tf = Math_min (js_mul (double (of_nat ?n / q)) (Fin 100)) (Fin 100) \<and>
      (q \<le> of_nat ?n \<longrightarrow> progress ?n ?tf = Fin 100) \<and>
      (?n = 0 \<longrightarrow> progress ?n ?tf = Fin 0) \<and>
      (q \<le> 2 powi 1022 \<longrightarrow>
         (\<exists>v. progress ?n ?tf = Fin v \<and>
              \<bar>v - min 100 (100 * of_nat ?n / q)\<bar> \<le> (100 * of_nat ?n / q) / 2 ^ 51))"
  proof (intro allI impI, elim conjE)
    fix q assume tf: "?tf = Fin q" and q: "0 < q"
    have a: "progress ?n (Fin q) =
        Math_min (js_mul (double (of_nat ?n / q)) (Fin 100)) (Fin 100)"
      using q by (simp add: progress_positive)
    have b: "q \<le> of_nat ?n \<longrightarrow> progress ?n (Fin q) = Fin 100"
      using progress_full [OF q] by blast
    have c: "?n = 0 \<longrightarrow> progress ?n (Fin q) = Fin 0"
      using progress_none [OF q] by simp
    have d: "q \<le> 2 powi 1022 \<longrightarrow>
         (\<exists>v. progress ?n (Fin q) = Fin v \<and>
              \<bar>v - min 100 (100 * of_nat ?n / q)\<bar> \<le> (100 * of_nat ?n / q) / 2 ^ 51)"
      using progress_error [OF q] by blast
    from a b c d show "progress ?n ?tf =
        Math_min (js_mul (double (of_nat ?n / q)) (Fin 100)) (Fin 100) \<and>
      (q \<le> of_nat ?n \<longrightarrow> progress ?n ?tf = Fin 100) \<and>
      (?n = 0 \<longrightarrow> progress ?n ?tf = Fin 0) \<and>
      (q \<le> 2 powi 1022 \<longrightarrow>
         (\<exists>v. progress ?n ?tf = Fin v \<and>
              \<bar>v - min 100 (100 * of_nat ?n / q)\<bar> \<le> (100 * of_nat ?n / q) / 2 ^ 51))"
      unfolding tf by (intro conjI)
  qed
  have 3: "\<not> js_lt (Fin 100) (progress ?n ?tf)" by (rule progress_cap)
  have 4: "?tf \<noteq> NaN \<longrightarrow> js_le (Fin 0) (progress ?n ?tf) \<and> js_le (progress ?n ?tf) (Fin 100)"
    using progress_range by blast
  have 5: "targetFrequency h' = ?tf \<and> ?n \<le> ?n' \<longrightarrow>
      \<not> js_lt (progress ?n' (targetFrequency h')) (progress ?n ?tf) \<and>
      (?tf \<noteq> NaN \<longrightarrow> js_le (progress ?n ?tf) (progress ?n' (targetFrequency h')))"
  proof (intro impI, elim conjE)
    assume e: "targetFrequency h' = ?tf" and l: "?n \<le> ?n'"
    show "\<not> js_lt (progress ?n' (targetFrequency h')) (progress ?n ?tf) \<and>
      (?tf \<noteq> NaN \<longrightarrow> js_le (progress ?n ?tf) (progress ?n' (targetFrequency h')))"
      unfolding e using progress_mono_not_lt [OF l] progress_mono_le [OF l] by blast
  qed
  from 1 2 3 4 5 show ?thesis unfolding getProgressPercentage_progress by (intro conjI)
qed

theorem C4_progress_percentage_witness:
  "js_le (targetFrequency habit_Write) (Fin 0) \<and>
   getProgressPercentage zoneUTC (Some monday_1am) habit_Write = Fin 0 \<and>
   isCompletedThisWeek zoneUTC (Some monday_1am) habit_Write \<and>
   targetFrequency habit_Walk = Fin 25 \<and> (0::rat) < 25 \<and> (25::rat) \<le> 2 powi 1022 \<and>
   targetFrequency habit_Walk \<noteq> NaN \<and>
   length (getThisWeekCompletions zoneUTC (Some monday_1am) habit_Walk) = 7 \<and>
   getProgressPercentage zoneUTC (Some monday_1am) habit_Walk = Fin (28 + 1 / 2 ^ 48) \<and>
   \<bar>(28 + 1 / 2 ^ 48) - min 100 (100 * of_nat 7 / 25)\<bar> \<le> (100 * of_nat 7 / 25) / (2 ^ 51 :: rat) \<and>
   length (getThisWeekCompletions zoneUTC (Some monday_1am) (habit_Walk\<lparr>completions := []\<rparr>)) = 0 \<and>
   getProgressPercentage zoneUTC (Some monday_1am) (habit_Walk\<lparr>completions := []\<rparr>) = Fin 0 \<and>
   targetFrequency (habit_Walk\<lparr>targetFrequency := Fin 7\<rparr>) = Fin 7 \<and>
   (7::rat) \<le> of_nat (length (getThisWeekCompletions zoneUTC (Some monday_1am)
     (habit_Walk\<lparr>targetFrequency := Fin 7\<rparr>))) \<and>
   getProgressPercentage zoneUTC (Some monday_1am) (habit_Walk\<lparr>targetFrequency := Fin 7\<rparr>) =
     Fin 100 \<and>
   js_le (getProgressPercentage zoneUTC (Some monday_1am) (habit_Walk\<lparr>completions := []\<rparr>))
     (getProgressPercentage zoneUTC (Some monday_1am) habit_Walk) \<and>
   js_le (getProgressPercentage zoneUTC (Some monday_1am) habit_Walk) (Fin 100)"
proof -
  let ?r = "Some monday_1am"
  let ?e = "habit_Walk\<lparr>completions := []\<rparr>"
  let ?f = "habit_Walk\<lparr>targetFrequency := Fin 7\<rparr>"
  have w: "js_le (targetFrequency habit_Write) (Fin 0)" by code_simp
  have t: "targetFrequency habit_Walk = Fin 25" "targetFrequency ?e = Fin 25"
    "targetFrequency ?f = Fin 7" "targetFrequency habit_Walk \<noteq> NaN"
    by (simp_all add: habit_Walk_def)
  have n: "length (getThisWeekCompletions zoneUTC ?r habit_Walk) = 7"
    "length (getThisWeekCompletions zoneUTC ?r ?e) = 0"
    "length (getThisWeekCompletions zoneUTC ?r ?f) = 7"
    by code_simp+
  have v: "getProgressPercentage zoneUTC ?r habit_Walk = Fin (28 + 1 / 2 ^ 48)" by code_simp
  have p: "(25::rat) \<le> 2 powi 1022" by simp
  note W = C4_progress_percentage [of habit_Write zoneUTC ?r habit_Write ?r]
  note A = C4_progress_percentage [of habit_Walk zoneUTC ?r habit_Walk ?r]
  note E = C4_progress_percentage [of ?e zoneUTC ?r habit_Walk ?r]
  note F = C4_progress_percentage [of ?f zoneUTC ?r habit_Walk ?r]
  from W w have 1: "getProgressPercentage zoneUTC ?r habit_Write = Fin 0"
    "isCompletedThisWeek zoneUTC ?r habit_Write" by blast+
  from A t(1) p obtain x where "getProgressPercentage zoneUTC ?r habit_Walk = Fin x"
    "\<bar>x - min 100 (100 * of_nat (length (getThisWeekCompletions zoneUTC ?r habit_Walk)) / 25)\<bar> \<le>
       (100 * of_nat (length (getThisWeekCompletions zoneUTC ?r habit_Walk)) / 25) / 2 ^ 51"
    by force
  with v n(1) have 2: "\<bar>(28 + 1 / 2 ^ 48) - min 100 (100 * of_nat 7 / 25)\<bar> \<le>
      (100 * of_nat 7 / 25) / (2 ^ 51 :: rat)" by simp
  from A t(4) have 3: "js_le (getProgressPercentage zoneUTC ?r habit_Walk) (Fin 100)" by blast
  from E t(2) n(2) have 4: "getProgressPercentage zoneUTC ?r ?e = Fin 0" by force
  from F t(3) n(3) have 5: "getProgressPercentage zoneUTC ?r ?f = Fin 100" by force
  have te: "targetFrequency habit_Walk = targetFrequency ?e" "targetFrequency ?e \<noteq> NaN"
    using t by simp_all
  have le: "length (getThisWeekCompletions zoneUTC ?r ?e) \<le>
      length (getThisWeekCompletions zoneUTC ?r habit_Walk)"
    using n by simp
  from E te le have 6: "js_le (getProgressPercentage zoneUTC ?r ?e)
     (getProgressPercentage zoneUTC ?r habit_Walk)" by blast
  from w 1 t n v p 2 3 4 5 6 show ?thesis by simp
qed

section \<open>Tracker operations: statistics and index checks\<close>

lemma foldl_completions:
  "foldl (\<lambda>n h. n + length (completions h)) a hs =
     a + sum_list (map (\<lambda>h. length (completions h)) hs)"
  by (induction hs arbitrary: a) simp_all

lemma updateStats_stats: "u_stats (updateStats hs p) = stats_of hs"
  by (simp add: updateStats_def stats_of_def Let_def foldl_completions)

lemma user_updateStats_Inr:
  "user_updateStats t = Inr t' \<longleftrightarrow>
     user t = TheUserProfile \<and> t' = t\<lparr>UserProfile := updateStats (habits t) (UserProfile t)\<rparr>"
  by (auto simp: user_updateStats_def split: userref.splits)

lemma user_updateStats_Inl:
  "user_updateStats t = Inl err \<longleftrightarrow> user t \<noteq> TheUserProfile \<and> err = TypeError"
  by (auto simp: user_updateStats_def split: userref.splits)

lemma saveToFile_fields [simp]:
  "habits (saveToFile e t) = habits t" "user (saveToFile e t) = user t"
  "UserProfile (saveToFile e t) = UserProfile t" "the_user (saveToFile e t) = the_user t"
  by (simp_all add: saveToFile_def the_user_def Let_def split: userref.splits)

lemma the_user_updated:
  "user t = TheUserProfile \<Longrightarrow>
     u_stats (the_user (t\<lparr>UserProfile := updateStats (habits t) (UserProfile t)\<rparr>)) = stats_of (habits t)"
  by (simp add: the_user_def updateStats_stats)

lemma stats_after_update:
  "user_updateStats t = Inr t' \<Longrightarrow> u_stats (the_user t') = stats_of (habits t') \<and> habits t' = habits t"
  by (auto simp: user_updateStats_Inr the_user_def updateStats_stats)

lemma markComplete_now: "\<exists>b h'. markComplete (Some n) h = Inr (b, h')"
  by (auto simp: markComplete_def formatDate_def toISOString_def)

lemma markComplete_False: "markComplete d h = Inr (False, h') \<Longrightarrow> h' = h"
  by (auto simp: markComplete_def split: sum.splits if_splits)

lemma element_Some:
  "element xs idx = Some (i, x) \<Longrightarrow> i < length xs \<and> x = xs ! i"
  by (auto simp: element_def split: jsnum.splits if_splits)

lemma addHabit_stats:
  "addHabit e name f t = (Inr h, t') \<Longrightarrow> u_stats (the_user t') = stats_of (habits t')"
  by (auto simp: addHabit_def Let_def split: sum.splits dest!: stats_after_update)

lemma completeHabit_added_stats:
  "completeHabit e v t = (Inr (Result h True), t') \<Longrightarrow> u_stats (the_user t') = stats_of (habits t')"
  by (auto simp: completeHabit_def Let_def split: sum.splits option.splits if_splits prod.splits
      dest!: stats_after_update)

lemma deleteHabit_stats:
  "deleteHabit e v t = (Inr True, t') \<Longrightarrow> u_stats (the_user t') = stats_of (habits t')"
  by (auto simp: deleteHabit_def Let_def split: sum.splits if_splits dest!: stats_after_update)

lemma completeHabit_not_added:
  "completeHabit e v t = (Inr (Result h False), t') \<Longrightarrow> t' = t"
  by (auto simp: completeHabit_def Let_def split: sum.splits option.splits if_splits prod.splits
      dest!: markComplete_False element_Some)

lemma completeHabit_error:
  "completeHabit e v t = (Inr (Error m), t') \<Longrightarrow> t' = t"
  by (auto simp: completeHabit_def Let_def split: sum.splits option.splits if_splits prod.splits)

lemma deleteHabit_False:
  "deleteHabit e v t = (Inr False, t') \<Longrightarrow> t' = t"
  by (auto simp: deleteHabit_def Let_def split: sum.splits if_splits)

lemma completeHabit_invalid:
  "invalidIndex (Number v) (habits t) \<Longrightarrow> completeHabit e v t = (Inr (Error ''Index tidak valid''), t)"
  by (simp add: completeHabit_def)

lemma completeHabit_fraction:
  assumes "Number v = Fin q" "0 \<le> q" "q < of_nat (length (habits t))" "q \<noteq> of_int \<lfloor>q\<rfloor>"
  shows "completeHabit e v t = (Inl TypeError, t)"
  using assms
  by (simp add: completeHabit_def invalidIndex_def isNaN_def js_lt_def js_ge_def element_def)

section \<open>Index validation\<close>

lemma trunc_of_nat [simp]: "trunc (of_nat i) = int i"
  using trunc_of_int [of "int i"] by simp

lemma valid_index:
  "i < length xs \<Longrightarrow> \<not> invalidIndex (Fin (of_nat i)) xs"
  by (simp add: invalidIndex_def isNaN_def js_lt_def js_ge_def)

lemma element_nat: "i < length xs \<Longrightarrow> element xs (Fin (of_nat i)) = Some (i, xs ! i)"
  by (simp add: element_def)

lemma splice1_nat: "i < length xs \<Longrightarrow> splice1 xs (Fin (of_nat i)) = take i xs @ drop (Suc i) xs"
  by (simp add: splice1_def Let_def min_def)

text \<open>What the guard of \<open>completeHabit\<close> rejects: NaN, negative numbers and numbers from the
  length of the array on.  The state is left as it was.\<close>

lemma invalidIndex_cases:
  "invalidIndex idx xs \<longleftrightarrow>
     (case idx of
        NaN \<Rightarrow> True
      | Fin q \<Rightarrow> q < 0 \<or> of_nat (length xs) \<le> q
      | PosInf \<Rightarrow> True
      | NegInf \<Rightarrow> True)"
  by (auto simp: invalidIndex_def isNaN_def js_lt_def js_ge_def split: jsnum.splits)

text \<open>
  C5.  The guard of \<open>completeHabit\<close> lets a number that is not an integer through when it
  lies between 0 and the number of habits: on the tracker with the two demo habits the
  answer \<open>0.5\<close> is coerced to the number 1/2, \<open>this.habits[0.5]\<close> is \<open>undefined\<close>, and the
  call of \<open>markComplete\<close> on it throws a TypeError instead of returning the error result.
\<close>

theorem C5_fraction_index_throws:
  "Number (JSString ''0.5'') = Fin (1 / 2) \<and>
   length (habits tracker_demo) = 2 \<and>
   completeHabit env0 (JSString ''0.5'') tracker_demo = (Inl TypeError, tracker_demo)"
proof -
  have n: "Number (JSString ''0.5'') = Fin (1 / 2)" by code_simp
  have l: "length (habits tracker_demo) = 2" by code_simp
  have "completeHabit env0 (JSString ''0.5'') tracker_demo = (Inl TypeError, tracker_demo)"
  proof (rule completeHabit_fraction [OF n])
    have "\<lfloor>1 / 2 :: rat\<rfloor> = 0" by (rule floor_unique) simp_all
    then show "(1 / 2 :: rat) \<noteq> of_int \<lfloor>1 / 2 :: rat\<rfloor>" by simp
  qed (simp_all add: l)
  with n l show ?thesis by simp
qed

section \<open>Statistics after a call\<close>

lemma pair_fst_snd: "fst p = a \<Longrightarrow> p = (a, snd p)"
  by (cases p) simp

text \<open>
  C6 (amended).  When \<open>addHabit\<close> returns, when \<open>completeHabit\<close> returns having added a
  completion, and when \<open>deleteHabit\<close> returns true, the stats of the profile equal the
  recomputation over the habit sequence.  A \<open>completeHabit\<close> that returns the error result or
  finds the day already recorded, and a \<open>deleteHabit\<close> that returns false, leave the whole
  state, stats included, as it was.
\<close>

theorem C6_stats_after_mutation:
  "(addHabit e name f t = (Inr h, t') \<longrightarrow> u_stats (the_user t') = stats_of (habits t')) \<and>
   (completeHabit e v t = (Inr (Result h True), t') \<longrightarrow>
      u_stats (the_user t') = stats_of (habits t')) \<and>
   (deleteHabit e v t = (Inr True, t') \<longrightarrow> u_stats (the_user t') = stats_of (habits t')) \<and>
   (completeHabit e v t = (Inr (Result h False), t') \<longrightarrow> t' = t) \<and>
   (completeHabit e v t = (Inr (Error m), t') \<longrightarrow> t' = t) \<and>
   (deleteHabit e v t = (Inr False, t') \<longrightarrow> t' = t)"
  by (intro conjI impI)
    (erule addHabit_stats completeHabit_added_stats deleteHabit_stats completeHabit_not_added
      completeHabit_error deleteHabit_False)+

theorem C6_stats_after_mutation_witness:
  "fst (addHabit env0 ''Read'' (JSNumber (Fin 3)) tracker_new) =
     Inr (new_Habit env0 ''Read'' (JSNumber (Fin 3))) \<and>
   u_stats (the_user (snd (addHabit env0 ''Read'' (JSNumber (Fin 3)) tracker_new))) =
     stats_of (habits (snd (addHabit env0 ''Read'' (JSNumber (Fin 3)) tracker_new))) \<and>
   fst (completeHabit env0 (JSString ''1'') tracker_demo) =
     Inr (Result ((habits tracker_demo ! 1)\<lparr>completions := [''2024-01-01'']\<rparr>) True) \<and>
   u_stats (the_user (snd (completeHabit env0 (JSString ''1'') tracker_demo))) =
     stats_of (habits (snd (completeHabit env0 (JSString ''1'') tracker_demo))) \<and>
   fst (deleteHabit env0 (JSString ''0'') tracker_demo) = Inr True \<and>
   u_stats (the_user (snd (deleteHabit env0 (JSString ''0'') tracker_demo))) =
     stats_of (habits (snd (deleteHabit env0 (JSString ''0'') tracker_demo))) \<and>
   fst (completeHabit env0 (JSString ''0'') tracker_demo) =
     Inr (Result (habits tracker_demo ! 0) False) \<and>
   snd (completeHabit env0 (JSString ''0'') tracker_demo) = tracker_demo \<and>
   fst (completeHabit env0 (JSString ''-1'') tracker_demo) = Inr (Error ''Index tidak valid'') \<and>
   snd (completeHabit env0 (JSString ''-1'') tracker_demo) = tracker_demo \<and>
   fst (deleteHabit env0 (JSString ''999'') tracker_demo) = Inr False \<and>
   snd (deleteHabit env0 (JSString ''999'') tracker_demo) = tracker_demo"
proof -
  have a: "fst (addHabit env0 ''Read'' (JSNumber (Fin 3)) tracker_new) =
      Inr (new_Habit env0 ''Read'' (JSNumber (Fin 3)))" by code_simp
  have c1: "fst (completeHabit env0 (JSString ''1'') tracker_demo) =
      Inr (Result ((habits tracker_demo ! 1)\<lparr>completions := [''2024-01-01'']\<rparr>) True)" by code_simp
  have d0: "fst (deleteHabit env0 (JSString ''0'') tracker_demo) = Inr True" by code_simp
  have c0: "fst (completeHabit env0 (JSString ''0'') tracker_demo) =
      Inr (Result (habits tracker_demo ! 0) False)" by code_simp
  have cm: "fst (completeHabit env0 (JSString ''-1'') tracker_demo) = Inr (Error ''Index tidak valid'')"
    by code_simp
  have d9: "fst (deleteHabit env0 (JSString ''999'') tracker_demo) = Inr False" by code_simp
  note T = C6_stats_after_mutation
  from T [of env0 "''Read''" "JSNumber (Fin 3)" tracker_new] pair_fst_snd [OF a]
  have 1: "u_stats (the_user (snd (addHabit env0 ''Read'' (JSNumber (Fin 3)) tracker_new))) =
     stats_of (habits (snd (addHabit env0 ''Read'' (JSNumber (Fin 3)) tracker_new)))"
    by blast
  from T [of env0 _ _ tracker_demo _ _ "JSString ''1''"] pair_fst_snd [OF c1]
  have 2: "u_stats (the_user (snd (completeHabit env0 (JSString ''1'') tracker_demo))) =
     stats_of (habits (snd (completeHabit env0 (JSString ''1'') tracker_demo)))"
    by blast
  from T [of env0 _ _ tracker_demo _ _ "JSString ''0''"] pair_fst_snd [OF d0]
  have 3: "u_stats (the_user (snd (deleteHabit env0 (JSString ''0'') tracker_demo))) =
     stats_of (habits (snd (deleteHabit env0 (JSString ''0'') tracker_demo)))"
    by blast
  from T [of env0 _ _ tracker_demo _ _ "JSString ''0''"] pair_fst_snd [OF c0]
  have 4: "snd (completeHabit env0 (JSString ''0'') tracker_demo) = tracker_demo"
    by blast
  from T [of env0 _ _ tracker_demo _ _ "JSString ''-1''"] pair_fst_snd [OF cm]
  have 5: "snd (completeHabit env0 (JSString ''-1'') tracker_demo) = tracker_demo"
    by blast
  from T [of env0 _ _ tracker_demo _ _ "JSString ''999''"] pair_fst_snd [OF d9]
  have 6: "snd (deleteHabit env0 (JSString ''999'') tracker_demo) = tracker_demo"
    by blast
  from a c1 d0 c0 cm d9 1 2 3 4 5 6 show ?thesis by (intro conjI)
qed

text \<open>
  The claim as stated fails in the first run of the program: \<open>main\<close> marks the first demo
  habit complete twice without recomputing the stats, and a \<open>completeHabit\<close> for that habit
  on the same day returns without recomputing them either.
\<close>

theorem C6_counterexample:
  "fst (completeHabit env0 (JSString ''0'') tracker_demo) =
     Inr (Result (habits tracker_demo ! 0) False) \<and>
   u_stats (the_user (snd (completeHabit env0 (JSString ''0'') tracker_demo))) =
     \<lparr>habitsCreated = 2, totalCompletions = 0\<rparr> \<and>
   stats_of (habits (snd (completeHabit env0 (JSString ''0'') tracker_demo))) =
     \<lparr>habitsCreated = 2, totalCompletions = 2\<rparr> \<and>
   u_stats (the_user (snd (completeHabit env0 (JSString ''0'') tracker_demo))) \<noteq>
     stats_of (habits (snd (completeHabit env0 (JSString ''0'') tracker_demo)))"
  by code_simp

section \<open>Uniqueness per calendar day\<close>

lemma nullish_simps [simp]: "nullish (Some v) d = v" "nullish None d = d"
  by (simp_all add: nullish_def)

lemma markComplete_distinct:
  "distinct (completions h) \<Longrightarrow> markComplete d h = Inr (b, h') \<Longrightarrow> distinct (completions h')"
  by (auto simp: markComplete_def split: sum.splits if_splits)

lemma user_updateStats_habits:
  "user_updateStats t = Inr t' \<Longrightarrow> habits t' = habits t \<and> DATA_FILE t' = DATA_FILE t"
  by (auto simp: user_updateStats_Inr)

lemma stringify_completions:
  "nullish (s_completions (stringify_habit h)) [] = completions h"
  by (simp add: stringify_habit_def)

lemma saveToFile_file_unique:
  "unique_days (habits t) \<Longrightarrow> file_unique (DATA_FILE t) \<Longrightarrow> file_unique (DATA_FILE (saveToFile e t))"
  by (simp add: saveToFile_def file_unique_def unique_days_def Let_def
      list_all_iff stringify_completions)

lemma restore_completions: "completions (restore e s) = nullish (s_completions s) []"
  by (simp add: restore_def Let_def)

lemma loadFromFile_completions:
  "DATA_FILE t = Content p \<Longrightarrow>
     map completions (habits (loadFromFile e t)) =
       map (\<lambda>s. nullish (s_completions s) []) (nullish (p_habits p) [])"
  by (auto simp: loadFromFile_def Let_def restore_completions user_updateStats_Inr
      split: sum.splits)

lemma loadFromFile_file:
  "DATA_FILE t = Content p \<Longrightarrow> DATA_FILE (loadFromFile e t) = Content p"
  by (auto simp: loadFromFile_def Let_def user_updateStats_Inr split: sum.splits)

lemma unique_days_map:
  "unique_days hs = list_all distinct (map completions hs)"
  by (simp add: unique_days_def list_all_iff)

lemma loadFromFile_unique:
  assumes "unique_days (habits t)" "file_unique (DATA_FILE t)"
  shows "unique_days (habits (loadFromFile e t)) \<and> file_unique (DATA_FILE (loadFromFile e t))"
proof (cases "DATA_FILE t")
  case Missing
  then show ?thesis using assms saveToFile_file_unique [of t e]
    by (simp add: loadFromFile_def)
next
  case Unparseable
  then show ?thesis using assms by (simp add: loadFromFile_def)
next
  case (Content p)
  then have "list_all distinct (map (\<lambda>s. nullish (s_completions s) []) (nullish (p_habits p) []))"
    using assms(2) by (simp add: file_unique_def list_all_iff)
  then show ?thesis
    using loadFromFile_completions [OF Content, of e] loadFromFile_file [OF Content, of e] assms(2)
    by (simp add: unique_days_map Content)
qed

lemma addHabit_unique:
  assumes "unique_days (habits t)" "file_unique (DATA_FILE t)"
  shows "unique_days (habits (snd (addHabit e n f t))) \<and> file_unique (DATA_FILE (snd (addHabit e n f t)))"
proof -
  let ?t = "t\<lparr>habits := habits t @ [new_Habit e n f]\<rparr>"
  have u: "unique_days (habits ?t)" "file_unique (DATA_FILE ?t)"
    using assms by (simp_all add: unique_days_def new_Habit_def)
  show ?thesis
  proof (cases "user_updateStats ?t")
    case (Inl err)
    then show ?thesis using u by (simp add: addHabit_def Let_def)
  next
    case (Inr t')
    then have "unique_days (habits t')" "file_unique (DATA_FILE t')"
      using u user_updateStats_habits [OF Inr] by simp_all
    then show ?thesis using Inr saveToFile_file_unique [of t' e]
      by (simp add: addHabit_def Let_def)
  qed
qed


lemma unique_days_update:
  "unique_days hs \<Longrightarrow> distinct (completions h) \<Longrightarrow> unique_days (hs[i := h])"
  unfolding unique_days_def list_all_iff
  using set_update_subset_insert [of hs i h] by auto

lemma unique_days_splice1: "unique_days hs \<Longrightarrow> unique_days (splice1 hs idx)"
  unfolding unique_days_def list_all_iff splice1_def Let_def
  by (auto dest: in_set_takeD in_set_dropD)

lemma unique_days_nth: "unique_days hs \<Longrightarrow> i < length hs \<Longrightarrow> distinct (completions (hs ! i))"
  by (simp add: unique_days_def list_all_length)

lemma tracker_inv_saveToFile: "tracker_inv t \<Longrightarrow> tracker_inv (saveToFile e t)"
  using saveToFile_file_unique [of t e] by (simp add: tracker_inv_def)

lemma tracker_inv_updated:
  "tracker_inv t \<Longrightarrow> tracker_inv (case user_updateStats t of Inl err \<Rightarrow> t | Inr t' \<Rightarrow> saveToFile e t')"
proof (cases "user_updateStats t")
  case (Inr t')
  assume "tracker_inv t"
  then have "tracker_inv t'" using user_updateStats_habits [OF Inr] by (simp add: tracker_inv_def)
  then show ?thesis using Inr by (simp add: tracker_inv_saveToFile)
qed simp

lemma snd_after_update:
  "snd (case user_updateStats t of Inl err \<Rightarrow> (Inl err, t) | Inr t' \<Rightarrow> (Inr x, saveToFile e t')) =
     (case user_updateStats t of Inl err \<Rightarrow> t | Inr t' \<Rightarrow> saveToFile e t')"
  by (simp split: sum.splits)

lemma tracker_inv_addHabit: "tracker_inv t \<Longrightarrow> tracker_inv (snd (addHabit e n f t))"
proof -
  assume "tracker_inv t"
  then have "tracker_inv (t\<lparr>habits := habits t @ [new_Habit e n f]\<rparr>)"
    by (simp add: tracker_inv_def unique_days_def new_Habit_def)
  then show ?thesis
    unfolding addHabit_def Let_def snd_after_update by (rule tracker_inv_updated)
qed

lemma tracker_inv_deleteHabit: "tracker_inv t \<Longrightarrow> tracker_inv (snd (deleteHabit e v t))"
proof (cases "invalidIndex (Number v) (habits t)")
  case True
  assume "tracker_inv t"
  with True show ?thesis by (simp add: deleteHabit_def)
next
  case False
  assume "tracker_inv t"
  then have "tracker_inv (t\<lparr>habits := splice1 (habits t) (Number v)\<rparr>)"
    by (simp add: tracker_inv_def unique_days_splice1)
  then have "tracker_inv (case user_updateStats (t\<lparr>habits := splice1 (habits t) (Number v)\<rparr>) of
      Inl err \<Rightarrow> t\<lparr>habits := splice1 (habits t) (Number v)\<rparr> | Inr t' \<Rightarrow> saveToFile e t')"
    by (rule tracker_inv_updated)
  then show ?thesis using False
    by (simp add: deleteHabit_def Let_def snd_after_update)
qed

lemma tracker_inv_completeHabit: "tracker_inv t \<Longrightarrow> tracker_inv (snd (completeHabit e v t))"
proof (cases "invalidIndex (Number v) (habits t)")
  case True
  assume "tracker_inv t"
  with True show ?thesis by (simp add: completeHabit_def)
next
  case False
  assume i: "tracker_inv t"
  show ?thesis
  proof (cases "element (habits t) (Number v)")
    case None
    with False i show ?thesis by (simp add: completeHabit_def)
  next
    case (Some kh)
    obtain k h where kh: "kh = (k, h)" by (cases kh)
    obtain b h' where mc: "markComplete (Some (now e)) h = Inr (b, h')"
      using markComplete_now by blast
    let ?t1 = "t\<lparr>habits := (habits t)[k := h']\<rparr>"
    from Some kh have "k < length (habits t)" "h = habits t ! k" by (auto dest: element_Some)
    with i have d: "distinct (completions h)" by (simp add: tracker_inv_def unique_days_nth)
    from d mc have "distinct (completions h')" by (rule markComplete_distinct)
    with i have i1: "tracker_inv ?t1" by (simp add: tracker_inv_def unique_days_update)
    have "snd (completeHabit e v t) =
        (if b then (case user_updateStats ?t1 of Inl err \<Rightarrow> ?t1 | Inr t' \<Rightarrow> saveToFile e t')
         else ?t1)"
      using False Some kh mc by (simp add: completeHabit_def Let_def split: sum.splits)
    then show ?thesis using i1 tracker_inv_updated [OF i1, of e] by simp
  qed
qed

lemma tracker_inv_loadFromFile: "tracker_inv t \<Longrightarrow> tracker_inv (loadFromFile e t)"
  using loadFromFile_unique [of t e] by (simp add: tracker_inv_def)

lemma tracker_inv_new: "file_unique f \<Longrightarrow> tracker_inv (new_HabitTracker e up f)"
  unfolding new_HabitTracker_def
  by (rule tracker_inv_loadFromFile) (simp add: tracker_inv_def unique_days_def)

text \<open>
  C7 (amended).  \<open>markComplete\<close> keeps the completions of a habit free of duplicates.  A
  reload gives every habit exactly the completions list the data file holds for it, so the
  lists are free of duplicates after a reload when they are in the file.  Hence, for a
  tracker constructed from a data file without duplicate dates (or from no file),
  uniqueness holds in memory and in the file after every \<open>addHabit\<close>, \<open>completeHabit\<close>,
  \<open>deleteHabit\<close>, save and reload.
\<close>

theorem C7_unique_days_preserved:
  "(distinct (completions h) \<and> markComplete d h = Inr (b, h') \<longrightarrow> distinct (completions h')) \<and>
   (DATA_FILE t = Content p \<longrightarrow>
      map completions (habits (loadFromFile e t)) =
        map (\<lambda>s. nullish (s_completions s) []) (nullish (p_habits p) [])) \<and>
   (tracker_inv t \<longrightarrow>
      tracker_inv (snd (addHabit e name f t)) \<and> tracker_inv (snd (completeHabit e v t)) \<and>
      tracker_inv (snd (deleteHabit e v t)) \<and> tracker_inv (saveToFile e t) \<and>
      tracker_inv (loadFromFile e t)) \<and>
   (file_unique fl \<longrightarrow> tracker_inv (new_HabitTracker e up fl))"
  using markComplete_distinct [of h d b h'] loadFromFile_completions [of t p e]
    tracker_inv_addHabit [of t e name f] tracker_inv_completeHabit [of t e v]
    tracker_inv_deleteHabit [of t e v] tracker_inv_saveToFile [of t e]
    tracker_inv_loadFromFile [of t e] tracker_inv_new [of fl e up]
  by blast

theorem C7_unique_days_preserved_witness:
  "distinct (completions habit_Read) \<and>
   markComplete (Some monday_1am) habit_Read =
     Inr (True, habit_Read\<lparr>completions := [''2024-01-01'']\<rparr>) \<and>
   distinct (completions (habit_Read\<lparr>completions := [''2024-01-01'']\<rparr>)) \<and>
   DATA_FILE tracker_demo =
     Content \<lparr>p_user = Some (the_user tracker_demo),
              p_habits = Some (map stringify_habit (habits tracker_demo))\<rparr> \<and>
   map completions (habits (loadFromFile env0 tracker_demo)) =
     [[''2024-01-01'', ''2023-12-31''], []] \<and>
   tracker_inv tracker_demo \<and>
   tracker_inv (snd (addHabit env0 ''Read'' (JSNumber (Fin 3)) tracker_demo)) \<and>
   tracker_inv (snd (completeHabit env0 (JSString ''1'') tracker_demo)) \<and>
   tracker_inv (snd (deleteHabit env0 (JSString ''1'') tracker_demo)) \<and>
   tracker_inv (saveToFile env0 tracker_demo) \<and>
   tracker_inv (loadFromFile env0 tracker_demo) \<and>
   file_unique Missing \<and> tracker_inv (new_HabitTracker env0 profile0 Missing)"
proof -
  have d: "distinct (completions habit_Read)" by code_simp
  have m: "markComplete (Some monday_1am) habit_Read =
     Inr (True, habit_Read\<lparr>completions := [''2024-01-01'']\<rparr>)" by code_simp
  have f: "DATA_FILE tracker_demo =
     Content \<lparr>p_user = Some (the_user tracker_demo),
              p_habits = Some (map stringify_habit (habits tracker_demo))\<rparr>" by code_simp
  have c: "map (\<lambda>s. nullish (s_completions s) []) (map stringify_habit (habits tracker_demo)) =
     [[''2024-01-01'', ''2023-12-31''], []]" by code_simp
  have i: "tracker_inv tracker_demo" by code_simp
  have u: "file_unique Missing" by code_simp
  note T = C7_unique_days_preserved [of habit_Read "Some monday_1am" True
      "habit_Read\<lparr>completions := [''2024-01-01'']\<rparr>" tracker_demo
      "\<lparr>p_user = Some (the_user tracker_demo),
        p_habits = Some (map stringify_habit (habits tracker_demo))\<rparr>" env0
      "''Read''" "JSNumber (Fin 3)" "JSString ''1''" Missing profile0]
  from T d m f c i u show ?thesis by simp
qed

text \<open>
  The claim as stated fails for a reload: \<open>loadFromFile\<close> copies the completions of the file
  as they are, so a date that the file holds twice is held twice by the habit.
\<close>

theorem C7_counterexample:
  "map completions (habits (new_HabitTracker env0 profile0 file_twice)) =
     [[''2024-01-01'', ''2024-01-01'']] \<and>
   \<not> unique_days (habits (new_HabitTracker env0 profile0 file_twice))"
  by code_simp

section \<open>Deleting and completing by index\<close>

lemma deleteHabit_habits:
  assumes "Number v = Fin (of_nat i)" "i < length (habits t)"
  shows "habits (snd (deleteHabit e v t)) = take i (habits t) @ drop (Suc i) (habits t)"
    and "user (snd (deleteHabit e v t)) = user t"
    and "user t = TheUserProfile \<Longrightarrow> fst (deleteHabit e v t) = Inr True"
  using assms valid_index [of i "habits t"]
  by (auto simp: deleteHabit_def Let_def splice1_nat user_updateStats_def split: userref.splits)

lemma completeHabit_habits:
  assumes "Number v = Fin (of_nat i)" "i < length (habits t)"
    and "markComplete (Some (now e)) (habits t ! i) = Inr (b, h')"
  shows "habits (snd (completeHabit e v t)) = (habits t)[i := h']"
    and "user t = TheUserProfile \<Longrightarrow> fst (completeHabit e v t) = Inr (Result h' b)"
    and "fst (completeHabit e v t) = Inr (Result h' b) \<or> fst (completeHabit e v t) = Inl TypeError"
  using assms valid_index [of i "habits t"]
  by (auto simp: completeHabit_def Let_def element_nat user_updateStats_def split: userref.splits)

lemma nth_after_delete:
  assumes "i < length xs"
  shows "length (take i xs @ drop (Suc i) xs) = length xs - 1"
    and "j < i \<Longrightarrow> (take i xs @ drop (Suc i) xs) ! j = xs ! j"
    and "i \<le> j \<Longrightarrow> j < length xs - 1 \<Longrightarrow> (take i xs @ drop (Suc i) xs) ! j = xs ! Suc j"
  using assms by (auto simp: nth_append min_def)

text \<open>
  C8.  On a tracker with at least \<open>i + 2\<close> habits, \<open>deleteHabit(i)\<close> leaves the habits before
  position \<open>i\<close> in place and moves every later one down by one, removing exactly the entry at
  \<open>i\<close>; a \<open>completeHabit(i)\<close> that follows marks the habit that was at \<open>i + 1\<close> and changes no
  other entry.  Both calls return normally (true, and the result for that habit) when the
  profile object has its methods.
\<close>

theorem C8_delete_then_complete:
  assumes "Number v = Fin (of_nat i)" and "i + 2 \<le> length (habits t)"
  shows "\<exists>r1 t1 r2 t2 b h'.
      deleteHabit e v t = (r1, t1) \<and> completeHabit e' v t1 = (r2, t2) \<and>
      habits t1 = take i (habits t) @ drop (Suc i) (habits t) \<and>
      length (habits t1) = length (habits t) - 1 \<and>
      (\<forall>j. j < i \<longrightarrow> habits t1 ! j = habits t ! j) \<and>
      (\<forall>j. i \<le> j \<and> j < length (habits t1) \<longrightarrow> habits t1 ! j = habits t ! Suc j) \<and>
      markComplete (Some (now e')) (habits t ! Suc i) = Inr (b, h') \<and>
      habits t2 = (habits t1)[i := h'] \<and>
      (r2 = Inr (Result h' b) \<or> r2 = Inl TypeError) \<and>
      (user t = TheUserProfile \<longrightarrow> r1 = Inr True \<and> r2 = Inr (Result h' b))"
proof -
  obtain r1 t1 where d: "deleteHabit e v t = (r1, t1)" by (cases "deleteHabit e v t")
  obtain r2 t2 where c: "completeHabit e' v t1 = (r2, t2)" by (cases "completeHabit e' v t1")
  obtain b h' where m: "markComplete (Some (now e')) (habits t ! Suc i) = Inr (b, h')"
    using markComplete_now by blast
  from assms(2) have i: "i < length (habits t)" by simp
  have h1: "habits t1 = take i (habits t) @ drop (Suc i) (habits t)" and u1: "user t1 = user t"
    and r1: "user t = TheUserProfile \<Longrightarrow> r1 = Inr True"
    using deleteHabit_habits [OF assms(1) i, of e] d by simp_all
  have len: "length (habits t1) = length (habits t) - 1"
    and below: "\<And>j. j < i \<Longrightarrow> habits t1 ! j = habits t ! j"
    and above: "\<And>j. i \<le> j \<Longrightarrow> j < length (habits t1) \<Longrightarrow> habits t1 ! j = habits t ! Suc j"
    unfolding h1 using nth_after_delete [OF i] by simp_all
  have i1: "i < length (habits t1)" using len assms(2) by simp
  then have "habits t1 ! i = habits t ! Suc i" using above by simp
  with m have m1: "markComplete (Some (now e')) (habits t1 ! i) = Inr (b, h')" by simp
  have h2: "habits t2 = (habits t1)[i := h']"
    and r2: "user t1 = TheUserProfile \<Longrightarrow> r2 = Inr (Result h' b)"
    and r2': "r2 = Inr (Result h' b) \<or> r2 = Inl TypeError"
    using completeHabit_habits [OF assms(1) i1 m1] c by simp_all
  from d c h1 len below above m h2 r2' r1 r2 u1 show ?thesis by auto
qed

theorem C8_delete_then_complete_witness:
  "Number (JSString ''0'') = Fin (of_nat 0) \<and> 0 + 2 \<le> length (habits tracker_demo) \<and>
   fst (deleteHabit env0 (JSString ''0'') tracker_demo) = Inr True \<and>
   habits (snd (deleteHabit env0 (JSString ''0'') tracker_demo)) = [habits tracker_demo ! 1] \<and>
   markComplete (Some (now env0)) (habits tracker_demo ! 1) =
     Inr (True, (habits tracker_demo ! 1)\<lparr>completions := [''2024-01-01'']\<rparr>) \<and>
   fst (completeHabit env0 (JSString ''0'') (snd (deleteHabit env0 (JSString ''0'') tracker_demo))) =
     Inr (Result ((habits tracker_demo ! 1)\<lparr>completions := [''2024-01-01'']\<rparr>) True) \<and>
   habits (snd (completeHabit env0 (JSString ''0'')
       (snd (deleteHabit env0 (JSString ''0'') tracker_demo)))) =
     [(habits tracker_demo ! 1)\<lparr>completions := [''2024-01-01'']\<rparr>]"
proof -
  have n: "Number (JSString ''0'') = Fin (of_nat 0)" by code_simp
  have l: "0 + 2 \<le> length (habits tracker_demo)" by code_simp
  have l2: "habits tracker_demo = [habits tracker_demo ! 0, habits tracker_demo ! 1]" by code_simp
  have u: "user tracker_demo = TheUserProfile" by code_simp
  have m: "markComplete (Some (now env0)) (habits tracker_demo ! 1) =
     Inr (True, (habits tracker_demo ! 1)\<lparr>completions := [''2024-01-01'']\<rparr>)" by code_simp
  have tk: "take 0 (habits tracker_demo) @ drop (Suc 0) (habits tracker_demo) = [habits tracker_demo ! 1]"
    by (subst (1 2) l2) simp
  from C8_delete_then_complete [OF n l, of env0 env0]
  obtain r1 t1 r2 t2 b h' where
    d: "deleteHabit env0 (JSString ''0'') tracker_demo = (r1, t1)" and
    c: "completeHabit env0 (JSString ''0'') t1 = (r2, t2)" and
    h1: "habits t1 = take 0 (habits tracker_demo) @ drop (Suc 0) (habits tracker_demo)" and
    mc: "markComplete (Some (now env0)) (habits tracker_demo ! Suc 0) = Inr (b, h')" and
    h2: "habits t2 = (habits t1)[0 := h']" and
    r: "user tracker_demo = TheUserProfile \<longrightarrow> r1 = Inr True \<and> r2 = Inr (Result h' b)"
    by (elim exE conjE) (rule that)
  from mc m have bh: "b = True" "h' = (habits tracker_demo ! 1)\<lparr>completions := [''2024-01-01'']\<rparr>"
    by simp_all
  from d c h1 h2 r u bh tk n l m show ?thesis by simp
qed

section \<open>Constructing and adding a habit\<close>

lemma new_Habit_fields:
  "h_id (new_Habit e name tf) = uuid e" "h_name (new_Habit e name tf) = name"
  "targetFrequency (new_Habit e name tf) = Number tf" "completions (new_Habit e name tf) = []"
  "toISOString (Some (now e)) = Inr (h_createdAt (new_Habit e name tf))"
  by (simp_all add: new_Habit_def toISOString_def)

text \<open>
  C9.  The constructor does not treat a non-numeric target as 0: \<open>Number\<close> returns NaN for
  the string \<open>abc\<close> and for \<open>undefined\<close>, NaN is neither \<open>null\<close> nor \<open>undefined\<close>, so \<open>?? 0\<close>
  leaves it, and the habit is built with the target NaN.
\<close>

theorem C9_non_numeric_target_is_NaN:
  "targetFrequency (new_Habit env0 ''Read'' (JSString ''abc'')) = NaN \<and>
   targetFrequency (new_Habit env0 ''Read'' JSUndefined) = NaN \<and>
   targetFrequency (new_Habit env0 ''Read'' (JSString ''abc'')) \<noteq> Fin 0"
  by code_simp

lemma saveToFile_written:
  "writable e \<Longrightarrow>
     DATA_FILE (saveToFile e t) =
       Content \<lparr>p_user = Some (the_user t), p_habits = Some (map stringify_habit (habits t))\<rparr>"
  by (simp add: saveToFile_def Let_def)

text \<open>
  C10 (amended).  On a tracker whose profile object has its methods, \<open>addHabit\<close> returns the
  habit it constructed from the name and the frequency, whatever they are, having appended
  it to the collection (one more habit), recomputed the stats and, when the file can be
  written, saved the state.  \<open>addHabit\<close> validates nothing; the caller, menu entry 4, rejects
  an empty name and a frequency that is not a number or is negative before calling it, and
  otherwise calls it with the trimmed name and the parsed number.
\<close>

theorem C10_addHabit_appends:
  "(user t = TheUserProfile \<longrightarrow>
      (\<exists>t'. addHabit e name frequency t = (Inr (new_Habit e name frequency), t') \<and>
            habits t' = habits t @ [new_Habit e name frequency] \<and>
            length (habits t') = length (habits t) + 1 \<and>
            u_stats (the_user t') = stats_of (habits t') \<and>
            (writable e \<longrightarrow>
               DATA_FILE t' =
                 Content \<lparr>p_user = Some (the_user t'),
                          p_habits = Some (map stringify_habit (habits t'))\<rparr>))) \<and>
   (trim name = [] \<or> isNaN (Number (JSString freq)) \<or> js_lt (Number (JSString freq)) (Fin 0) \<longrightarrow>
      handleMenu_4 e name freq t = (Inr None, t)) \<and>
   (\<not> (trim name = [] \<or> isNaN (Number (JSString freq)) \<or> js_lt (Number (JSString freq)) (Fin 0)) \<longrightarrow>
      fst (handleMenu_4 e name freq t) =
        map_sum id Some (fst (addHabit e (trim name) (JSNumber (Number (JSString freq))) t)) \<and>
      snd (handleMenu_4 e name freq t) =
        snd (addHabit e (trim name) (JSNumber (Number (JSString freq))) t))"
proof (intro conjI impI)
  assume u: "user t = TheUserProfile"
  let ?h = "new_Habit e name frequency"
  let ?t1 = "t\<lparr>habits := habits t @ [?h]\<rparr>"
  let ?t2 = "?t1\<lparr>UserProfile := updateStats (habits ?t1) (UserProfile ?t1)\<rparr>"
  have up: "user_updateStats ?t1 = Inr ?t2" using u by (simp add: user_updateStats_def)
  then have a: "addHabit e name frequency t = (Inr ?h, saveToFile e ?t2)"
    by (simp add: addHabit_def Let_def)
  have "u_stats (the_user (saveToFile e ?t2)) = stats_of (habits (saveToFile e ?t2))"
    using stats_after_update [OF up] by simp
  moreover have "writable e \<longrightarrow> DATA_FILE (saveToFile e ?t2) =
      Content \<lparr>p_user = Some (the_user (saveToFile e ?t2)),
               p_habits = Some (map stringify_habit (habits (saveToFile e ?t2)))\<rparr>"
    using saveToFile_written [of e ?t2] by simp
  ultimately show "\<exists>t'. addHabit e name frequency t = (Inr ?h, t') \<and>
            habits t' = habits t @ [?h] \<and>
            length (habits t') = length (habits t) + 1 \<and>
            u_stats (the_user t') = stats_of (habits t') \<and>
            (writable e \<longrightarrow>
               DATA_FILE t' =
                 Content \<lparr>p_user = Some (the_user t'),
                          p_habits = Some (map stringify_habit (habits t'))\<rparr>)"
    using a by (intro exI [of _ "saveToFile e ?t2"]) simp
next
  assume "trim name = [] \<or> isNaN (Number (JSString freq)) \<or> js_lt (Number (JSString freq)) (Fin 0)"
  then show "handleMenu_4 e name freq t = (Inr None, t)"
    by (simp add: handleMenu_4_def Let_def)
next
  assume "\<not> (trim name = [] \<or> isNaN (Number (JSString freq)) \<or> js_lt (Number (JSString freq)) (Fin 0))"
  then show "fst (handleMenu_4 e name freq t) =
        map_sum id Some (fst (addHabit e (trim name) (JSNumber (Number (JSString freq))) t))"
    by (simp add: handleMenu_4_def Let_def split: prod.splits sum.splits)
next
  assume "\<not> (trim name = [] \<or> isNaN (Number (JSString freq)) \<or> js_lt (Number (JSString freq)) (Fin 0))"
  then show "snd (handleMenu_4 e name freq t) =
        snd (addHabit e (trim name) (JSNumber (Number (JSString freq))) t)"
    by (simp add: handleMenu_4_def Let_def split: prod.splits sum.splits)
qed

theorem C10_addHabit_appends_witness:
  "user tracker_new = TheUserProfile \<and> writable env0 \<and>
   fst (addHabit env0 ''Read'' (JSNumber (Fin 3)) tracker_new) =
     Inr (new_Habit env0 ''Read'' (JSNumber (Fin 3))) \<and>
   length (habits (snd (addHabit env0 ''Read'' (JSNumber (Fin 3)) tracker_new))) =
     length (habits tracker_new) + 1 \<and>
   DATA_FILE (snd (addHabit env0 ''Read'' (JSNumber (Fin 3)) tracker_new)) =
     Content
       \<lparr>p_user = Some (the_user (snd (addHabit env0 ''Read'' (JSNumber (Fin 3)) tracker_new))),
        p_habits = Some (map stringify_habit
          (habits (snd (addHabit env0 ''Read'' (JSNumber (Fin 3)) tracker_new))))\<rparr> \<and>
   trim ''  '' = [] \<and> handleMenu_4 env0 ''  '' ''3'' tracker_new = (Inr None, tracker_new) \<and>
   js_lt (Number (JSString ''-3'')) (Fin 0) \<and>
   handleMenu_4 env0 ''Read'' ''-3'' tracker_new = (Inr None, tracker_new) \<and>
   isNaN (Number (JSString ''abc'')) \<and>
   handleMenu_4 env0 ''Read'' ''abc'' tracker_new = (Inr None, tracker_new) \<and>
   \<not> (trim '' Read '' = [] \<or> isNaN (Number (JSString ''3'')) \<or>
      js_lt (Number (JSString ''3'')) (Fin 0)) \<and>
   fst (handleMenu_4 env0 '' Read '' ''3'' tracker_new) =
     Inr (Some (new_Habit env0 ''Read'' (JSNumber (Fin 3))))"
proof -
  have u: "user tracker_new = TheUserProfile" and w: "writable env0" by code_simp+
  have v1: "trim ''  '' = []" and v2: "js_lt (Number (JSString ''-3'')) (Fin 0)"
    and v3: "isNaN (Number (JSString ''abc''))" by code_simp+
  have ok: "\<not> (trim '' Read '' = [] \<or> isNaN (Number (JSString ''3'')) \<or>
      js_lt (Number (JSString ''3'')) (Fin 0))" by code_simp
  have tr: "trim '' Read '' = ''Read''" and nm: "Number (JSString ''3'') = Fin 3" by code_simp+
  note A = C10_addHabit_appends [of tracker_new env0 "''Read''" "JSNumber (Fin 3)" "''3''"]
  note B1 = C10_addHabit_appends [of tracker_new env0 "''  ''" "JSNumber (Fin 3)" "''3''"]
  note B2 = C10_addHabit_appends [of tracker_new env0 "''Read''" "JSNumber (Fin 3)" "''-3''"]
  note B3 = C10_addHabit_appends [of tracker_new env0 "''Read''" "JSNumber (Fin 3)" "''abc''"]
  note B4 = C10_addHabit_appends [of tracker_new env0 "'' Read ''" "JSNumber (Fin 3)" "''3''"]
  from A u w obtain t' where
    a: "addHabit env0 ''Read'' (JSNumber (Fin 3)) tracker_new =
          (Inr (new_Habit env0 ''Read'' (JSNumber (Fin 3))), t')" and
    l: "length (habits t') = length (habits tracker_new) + 1" and
    f: "DATA_FILE t' =
          Content \<lparr>p_user = Some (the_user t'), p_habits = Some (map stringify_habit (habits t'))\<rparr>"
    by blast
  from B1 v1 have b1: "handleMenu_4 env0 ''  '' ''3'' tracker_new = (Inr None, tracker_new)" by blast
  from B2 v2 have b2: "handleMenu_4 env0 ''Read'' ''-3'' tracker_new = (Inr None, tracker_new)" by blast
  from B3 v3 have b3: "handleMenu_4 env0 ''Read'' ''abc'' tracker_new = (Inr None, tracker_new)" by blast
  from B4 ok have "fst (handleMenu_4 env0 '' Read '' ''3'' tracker_new) =
        map_sum id Some (fst (addHabit env0 (trim '' Read '') (JSNumber (Number (JSString ''3''))) tracker_new))"
    by blast
  then have b4: "fst (handleMenu_4 env0 '' Read '' ''3'' tracker_new) =
     Inr (Some (new_Habit env0 ''Read'' (JSNumber (Fin 3))))"
    using a by (simp add: tr nm)
  from u w a l f v1 v2 v3 ok b1 b2 b3 b4 show ?thesis by simp
qed

text \<open>
  The claim as stated fails: \<open>addHabit\<close> accepts an empty name with a negative frequency, and
  a frequency that is not a number, and returns the habit.
\<close>

theorem C10_counterexample:
  "fst (addHabit env0 [] (JSNumber (Fin (- 1))) tracker_new) =
     Inr (new_Habit env0 [] (JSNumber (Fin (- 1)))) \<and>
   length (habits (snd (addHabit env0 [] (JSNumber (Fin (- 1))) tracker_new))) =
     length (habits tracker_new) + 1 \<and>
   fst (addHabit env0 ''Read'' (JSString ''abc'') tracker_new) =
     Inr (new_Habit env0 ''Read'' (JSString ''abc''))"
  by code_simp

section \<open>The tracker after a reload\<close>

text \<open>
  A data file written by \<open>saveToFile\<close> has the key \<open>user\<close>, so a tracker constructed from it
  holds the parsed object as \<open>this.user\<close>.  That object has no method \<open>updateStats\<close>: the call
  in \<open>loadFromFile\<close> throws and is caught there, and every later \<open>addHabit\<close>, \<open>deleteHabit\<close>
  with an accepted index and \<open>completeHabit\<close> that adds a completion throws a TypeError after
  it has changed the habits.
\<close>

lemma saveToFile_has_user:
  "writable e \<Longrightarrow> \<exists>p u. DATA_FILE (saveToFile e t) = Content p \<and> p_user p = Some u"
  by (simp add: saveToFile_def Let_def)

lemma loadFromFile_user:
  "DATA_FILE t = Content p \<Longrightarrow> p_user p = Some u \<Longrightarrow> user (loadFromFile e t) = Parsed u"
  by (simp add: loadFromFile_def Let_def user_updateStats_def)

lemma addHabit_throws:
  "user t \<noteq> TheUserProfile \<Longrightarrow> fst (addHabit e name f t) = Inl TypeError"
  by (cases "user t") (simp_all add: addHabit_def Let_def user_updateStats_def)

lemma second_run_throws:
  "user (new_HabitTracker env0 profile0 (DATA_FILE tracker_demo)) =
     Parsed \<lparr>u_name = ''User'', u_createdAt = ''2024-01-01T00:00:00.000Z'',
             u_stats = \<lparr>habitsCreated = 2, totalCompletions = 0\<rparr>\<rparr> \<and>
   fst (addHabit env0 ''Run'' (JSNumber (Fin 2))
         (new_HabitTracker env0 profile0 (DATA_FILE tracker_demo))) = Inl TypeError \<and>
   length (habits (snd (addHabit env0 ''Run'' (JSNumber (Fin 2))
         (new_HabitTracker env0 profile0 (DATA_FILE tracker_demo))))) = 3 \<and>
   fst (deleteHabit env0 (JSString ''0'')
         (new_HabitTracker env0 profile0 (DATA_FILE tracker_demo))) = Inl TypeError \<and>
   fst (completeHabit env0 (JSString ''1'')
         (new_HabitTracker env0 profile0 (DATA_FILE tracker_demo))) = Inl TypeError"
  by code_simp

end
